theory Spec2Isabelle
  imports Complex_Main "HOL-Library.AList"
begin

section \<open>Python values exchanged with the json module\<close>

text \<open>
  The example scripts under \<^verbatim>\<open>scripts/transform\<close> are Python callbacks
  \<^verbatim>\<open>should_process(key, value) -> bool\<close> and
  \<^verbatim>\<open>transform_value(key, value) -> str\<close>. Each parses \<^verbatim>\<open>value\<close> with
  \<^verbatim>\<open>json.loads\<close>, works on the parsed Python object and serialises it with
  \<^verbatim>\<open>json.dumps\<close>, all inside \<^verbatim>\<open>try: ... except: ...\<close>.

  The objects \<^verbatim>\<open>json.loads\<close> produces are \<^verbatim>\<open>None\<close>, \<^verbatim>\<open>bool\<close>,
  \<^verbatim>\<open>int\<close> (unbounded), \<^verbatim>\<open>float\<close>, \<^verbatim>\<open>str\<close>, \<^verbatim>\<open>list\<close> and
  \<^verbatim>\<open>dict\<close> with \<^verbatim>\<open>str\<close> keys in insertion order. The scripts only compare
  floats with integer constants, which Python does exactly, so a float is kept as its
  exact rational value, with negative zero, the infinities and NaN apart. A Python
  \<^verbatim>\<open>str\<close> is a \<open>string\<close>; the scripts look into one only for the ASCII literals
  \<^verbatim>\<open>{\<close>, \<^verbatim>\<open>}\<close>, \<^verbatim>\<open>[\<close>, \<^verbatim>\<open>]\<close> and the field names.
\<close>

datatype pyfloat = Finite rat | NegZero | PosInf | NegInf | NaN

datatype json =
    JNull
  | JBool bool
  | JInt int
  | JFloat pyfloat
  | JStr string
  | JList "json list"
  | JDict "(string \<times> json) list"

text \<open>The exceptions the scripts' statements can raise.\<close>

datatype exn = JSONDecodeError | RecursionError | ValueError | TypeError | AttributeError | KeyError

text \<open>
  The library functions the scripts call are not part of the repository; they are taken as
  parameters. \<open>json_loads\<close> and \<open>json_dumps\<close> return \<open>Inl\<close> when the call raises;
  \<open>str_upper\<close> is \<^verbatim>\<open>str.upper\<close>.
\<close>

record pylib =
  json_loads :: "string \<Rightarrow> exn + json"
  json_dumps :: "json \<Rightarrow> exn + string"
  str_upper :: "string \<Rightarrow> string"

subsection \<open>Statements that may raise\<close>

definition py_bind :: "exn + 'a \<Rightarrow> ('a \<Rightarrow> exn + 'b) \<Rightarrow> exn + 'b" where
  "py_bind m f = (case m of Inl e \<Rightarrow> Inl e | Inr x \<Rightarrow> f x)"

text \<open>\<^verbatim>\<open>try: return body  except: return fallback\<close> (a bare except catches everything).\<close>

definition try_except :: "exn + 'a \<Rightarrow> 'a \<Rightarrow> exn + 'a" where
  "try_except body fallback = (case body of Inl e \<Rightarrow> Inr fallback | Inr x \<Rightarrow> Inr x)"

subsection \<open>String operations\<close>

fun startswith :: "string \<Rightarrow> string \<Rightarrow> bool" where
  "startswith s [] = True"
| "startswith [] (p # ps) = False"
| "startswith (c # cs) (p # ps) = (c = p \<and> startswith cs ps)"

definition endswith :: "string \<Rightarrow> string \<Rightarrow> bool" where
  "endswith s p = startswith (rev s) (rev p)"

text \<open>\<^verbatim>\<open>p in s\<close> for two strings: \<open>p\<close> occurs in \<open>s\<close> as a substring.\<close>

fun str_contains :: "string \<Rightarrow> string \<Rightarrow> bool" where
  "str_contains [] p = (p = [])"
| "str_contains (c # cs) p = (startswith (c # cs) p \<or> str_contains cs p)"

subsection \<open>Operators on parsed values\<close>

text \<open>\<^verbatim>\<open>x > n\<close> and \<^verbatim>\<open>x < n\<close> for a float \<open>x\<close> and an int \<open>n\<close>: exact; false on NaN.\<close>

fun float_gt_int :: "pyfloat \<Rightarrow> int \<Rightarrow> bool" where
  "float_gt_int (Finite q) n = (of_int n < q)"
| "float_gt_int NegZero n = (n < 0)"
| "float_gt_int PosInf n = True"
| "float_gt_int NegInf n = False"
| "float_gt_int NaN n = False"

fun float_lt_int :: "pyfloat \<Rightarrow> int \<Rightarrow> bool" where
  "float_lt_int (Finite q) n = (q < of_int n)"
| "float_lt_int NegZero n = (0 < n)"
| "float_lt_int PosInf n = False"
| "float_lt_int NegInf n = True"
| "float_lt_int NaN n = False"

text \<open>
  \<^verbatim>\<open>x > n\<close> with \<open>n\<close> an int literal. \<^verbatim>\<open>bool\<close> is a subclass of \<^verbatim>\<open>int\<close>
  (\<^verbatim>\<open>True == 1\<close>); \<^verbatim>\<open>None\<close>, strings, lists and dicts raise TypeError.
\<close>

fun py_gt :: "json \<Rightarrow> int \<Rightarrow> exn + bool" where
  "py_gt (JInt i) n = Inr (n < i)"
| "py_gt (JBool b) n = Inr (n < (if b then 1 else 0))"
| "py_gt (JFloat f) n = Inr (float_gt_int f n)"
| "py_gt JNull n = Inl TypeError"
| "py_gt (JStr s) n = Inl TypeError"
| "py_gt (JList xs) n = Inl TypeError"
| "py_gt (JDict d) n = Inl TypeError"

fun py_lt :: "json \<Rightarrow> int \<Rightarrow> exn + bool" where
  "py_lt (JInt i) n = Inr (i < n)"
| "py_lt (JBool b) n = Inr ((if b then 1 else 0) < n)"
| "py_lt (JFloat f) n = Inr (float_lt_int f n)"
| "py_lt JNull n = Inl TypeError"
| "py_lt (JStr s) n = Inl TypeError"
| "py_lt (JList xs) n = Inl TypeError"
| "py_lt (JDict d) n = Inl TypeError"

text \<open>
  \<^verbatim>\<open>k in data\<close> with \<open>k\<close> a string literal: key membership on a dict, element
  membership on a list (a string equals only an equal string), substring on a string,
  TypeError on the values that are not containers.
\<close>

fun py_in :: "string \<Rightarrow> json \<Rightarrow> exn + bool" where
  "py_in k (JDict d) = Inr (map_of d k \<noteq> None)"
| "py_in k (JList xs) = Inr (JStr k \<in> set xs)"
| "py_in k (JStr s) = Inr (str_contains s k)"
| "py_in k JNull = Inl TypeError"
| "py_in k (JBool b) = Inl TypeError"
| "py_in k (JInt i) = Inl TypeError"
| "py_in k (JFloat f) = Inl TypeError"

text \<open>\<^verbatim>\<open>data[k]\<close> with \<open>k\<close> a string: KeyError on a dict without it, TypeError elsewhere.\<close>

fun py_getitem :: "json \<Rightarrow> string \<Rightarrow> exn + json" where
  "py_getitem (JDict d) k = (case map_of d k of None \<Rightarrow> Inl KeyError | Some x \<Rightarrow> Inr x)"
| "py_getitem JNull k = Inl TypeError"
| "py_getitem (JBool b) k = Inl TypeError"
| "py_getitem (JInt i) k = Inl TypeError"
| "py_getitem (JFloat f) k = Inl TypeError"
| "py_getitem (JStr s) k = Inl TypeError"
| "py_getitem (JList xs) k = Inl TypeError"

text \<open>
  \<^verbatim>\<open>data[k] = x\<close>: a dict keeps the position of a key it has and appends a new one;
  every other value raises TypeError.
\<close>

fun py_setitem :: "json \<Rightarrow> string \<Rightarrow> json \<Rightarrow> exn + json" where
  "py_setitem (JDict d) k x = Inr (JDict (AList.update k x d))"
| "py_setitem JNull k x = Inl TypeError"
| "py_setitem (JBool b) k x = Inl TypeError"
| "py_setitem (JInt i) k x = Inl TypeError"
| "py_setitem (JFloat f) k x = Inl TypeError"
| "py_setitem (JStr s) k x = Inl TypeError"
| "py_setitem (JList xs) k x = Inl TypeError"

text \<open>\<^verbatim>\<open>data.get(k, default)\<close>: only a dict has the method.\<close>

fun py_get :: "json \<Rightarrow> string \<Rightarrow> json \<Rightarrow> exn + json" where
  "py_get (JDict d) k dflt = Inr (case map_of d k of None \<Rightarrow> dflt | Some x \<Rightarrow> x)"
| "py_get JNull k dflt = Inl AttributeError"
| "py_get (JBool b) k dflt = Inl AttributeError"
| "py_get (JInt i) k dflt = Inl AttributeError"
| "py_get (JFloat f) k dflt = Inl AttributeError"
| "py_get (JStr s) k dflt = Inl AttributeError"
| "py_get (JList xs) k dflt = Inl AttributeError"

text \<open>\<^verbatim>\<open>list(data.items())\<close> and \<^verbatim>\<open>data.values()\<close>: only a dict has the methods.\<close>

fun py_items :: "json \<Rightarrow> exn + (string \<times> json) list" where
  "py_items (JDict d) = Inr d"
| "py_items JNull = Inl AttributeError"
| "py_items (JBool b) = Inl AttributeError"
| "py_items (JInt i) = Inl AttributeError"
| "py_items (JFloat f) = Inl AttributeError"
| "py_items (JStr s) = Inl AttributeError"
| "py_items (JList xs) = Inl AttributeError"

definition py_values :: "json \<Rightarrow> exn + json list" where
  "py_values data = py_bind (py_items data) (\<lambda>d. Inr (map snd d))"

text \<open>\<^verbatim>\<open>x.upper()\<close>: only a string has the method.\<close>

fun py_upper :: "pylib \<Rightarrow> json \<Rightarrow> exn + json" where
  "py_upper L (JStr s) = Inr (JStr (str_upper L s))"
| "py_upper L JNull = Inl AttributeError"
| "py_upper L (JBool b) = Inl AttributeError"
| "py_upper L (JInt i) = Inl AttributeError"
| "py_upper L (JFloat f) = Inl AttributeError"
| "py_upper L (JList xs) = Inl AttributeError"
| "py_upper L (JDict d) = Inl AttributeError"

section \<open>The example scripts\<close>

subsection \<open>add\_timestamp.py\<close>

text \<open>
  \<open>now\<close> is the text \<^verbatim>\<open>datetime.utcnow().isoformat()\<close> evaluates to at the call: the
  one input of the scripts that is not an argument.
\<close>

definition add_timestamp_transform_value :: "pylib \<Rightarrow> string \<Rightarrow> string \<Rightarrow> string \<Rightarrow> exn + string" where
  "add_timestamp_transform_value L now key val =
     try_except
       (py_bind (json_loads L val) (\<lambda>data.
        py_bind (py_setitem data ''processed_at'' (JStr (now @ ''Z''))) (\<lambda>data.
        py_bind (py_setitem data ''transform_version'' (JStr ''1.0'')) (\<lambda>data.
        json_dumps L data))))
       val"

subsection \<open>filter\_by\_age.py\<close>

definition filter_by_age_should_process :: "pylib \<Rightarrow> string \<Rightarrow> string \<Rightarrow> exn + bool" where
  "filter_by_age_should_process L key val =
     try_except
       (py_bind (json_loads L val) (\<lambda>data.
        py_bind (py_in ''age'' data) (\<lambda>has_age.
        if has_age then py_bind (py_getitem data ''age'') (\<lambda>age. py_gt age 30)
        else Inr False)))
       False"

definition filter_by_age_transform_value :: "pylib \<Rightarrow> string \<Rightarrow> string \<Rightarrow> exn + string" where
  "filter_by_age_transform_value L key val =
     try_except
       (py_bind (json_loads L val) (\<lambda>data.
        py_bind (py_get data ''age'' (JInt 0)) (\<lambda>age.
        py_bind (py_lt age 25) (\<lambda>lt25.
        py_bind
          (if lt25 then py_setitem data ''age_group'' (JStr ''young'')
           else py_bind (py_lt age 35) (\<lambda>lt35.
             if lt35 then py_setitem data ''age_group'' (JStr ''middle'')
             else py_setitem data ''age_group'' (JStr ''senior'')))
          (\<lambda>data. json_dumps L data)))))
       val"

subsection \<open>flatten\_nested\_json.py\<close>

definition looks_like_json :: "string \<Rightarrow> bool" where
  "looks_like_json s =
     ((startswith s ''{'' \<and> endswith s ''}'') \<or> (startswith s ''['' \<and> endswith s '']''))"

text \<open>
  One round of the loop over \<^verbatim>\<open>list(data.items())\<close>: the inner
  \<^verbatim>\<open>try: parsed = json.loads(field_value); data[field] = parsed  except: pass\<close>.
\<close>

definition flatten_field :: "pylib \<Rightarrow> json \<Rightarrow> string \<times> json \<Rightarrow> json" where
  "flatten_field L data item =
     (case snd item of
        JStr s \<Rightarrow>
          if looks_like_json s then
            (case py_bind (json_loads L s) (\<lambda>parsed. py_setitem data (fst item) parsed) of
               Inl e \<Rightarrow> data
             | Inr data' \<Rightarrow> data')
          else data
      | _ \<Rightarrow> data)"

definition flatten_nested_json_transform_value :: "pylib \<Rightarrow> string \<Rightarrow> string \<Rightarrow> exn + string" where
  "flatten_nested_json_transform_value L key val =
     try_except
       (py_bind (json_loads L val) (\<lambda>data.
        py_bind (py_items data) (\<lambda>items.
        json_dumps L (foldl (flatten_field L) data items))))
       val"

definition nested_json_string :: "json \<Rightarrow> bool" where
  "nested_json_string field_value =
     (case field_value of JStr s \<Rightarrow> startswith s ''{'' \<or> startswith s ''['' | _ \<Rightarrow> False)"

definition flatten_nested_json_should_process :: "pylib \<Rightarrow> string \<Rightarrow> string \<Rightarrow> exn + bool" where
  "flatten_nested_json_should_process L key val =
     try_except
       (py_bind (json_loads L val) (\<lambda>data.
        py_bind (py_values data) (\<lambda>vs. Inr (list_ex nested_json_string vs))))
       False"

subsection \<open>transform\_uppercase\_name.py\<close>

text \<open>
  The statements between \<^verbatim>\<open>json.loads\<close> and \<^verbatim>\<open>json.dumps\<close>:
  \<^verbatim>\<open>if 'name' in data: data['name'] = data['name'].upper()\<close>.
\<close>

definition uppercase_name_field :: "pylib \<Rightarrow> json \<Rightarrow> exn + json" where
  "uppercase_name_field L data =
     py_bind (py_in ''name'' data) (\<lambda>has_name.
       if has_name then
         py_bind (py_getitem data ''name'') (\<lambda>name.
         py_bind (py_upper L name) (\<lambda>upper. py_setitem data ''name'' upper))
       else Inr data)"

definition transform_uppercase_name_transform_value :: "pylib \<Rightarrow> string \<Rightarrow> string \<Rightarrow> exn + string" where
  "transform_uppercase_name_transform_value L key val =
     try_except
       (py_bind (json_loads L val) (\<lambda>data.
        py_bind (uppercase_name_field L data) (\<lambda>data. json_dumps L data)))
       val"

definition transform_uppercase_name_should_process :: "pylib \<Rightarrow> string \<Rightarrow> string \<Rightarrow> exn + bool" where
  "transform_uppercase_name_should_process L key val =
     try_except
       (py_bind (json_loads L val) (\<lambda>data. py_in ''name'' data))
       False"

subsection \<open>The four transforms under one name\<close>

datatype script = Add_timestamp | Filter_by_age | Flatten_nested_json | Transform_uppercase_name

fun transform_value :: "pylib \<Rightarrow> script \<Rightarrow> string \<Rightarrow> string \<Rightarrow> string \<Rightarrow> exn + string" where
  "transform_value L Add_timestamp now key val = add_timestamp_transform_value L now key val"
| "transform_value L Filter_by_age now key val = filter_by_age_transform_value L key val"
| "transform_value L Flatten_nested_json now key val = flatten_nested_json_transform_value L key val"
| "transform_value L Transform_uppercase_name now key val =
     transform_uppercase_name_transform_value L key val"

section \<open>Predicates of the specification\<close>

text \<open>
  "A number strictly greater than \<open>n\<close>" and "a number below \<open>n\<close>" as the specification
  uses the words: the value is a JSON number (an integer or a float; not \<^verbatim>\<open>true\<close>,
  \<^verbatim>\<open>false\<close>, \<^verbatim>\<open>null\<close>, a string, an array or an object) and the comparison holds.
\<close>

fun json_number_gt :: "json \<Rightarrow> int \<Rightarrow> bool" where
  "json_number_gt (JInt i) n = (n < i)"
| "json_number_gt (JFloat f) n = float_gt_int f n"
| "json_number_gt x n = False"

fun json_number_lt :: "json \<Rightarrow> int \<Rightarrow> bool" where
  "json_number_lt (JInt i) n = (i < n)"
| "json_number_lt (JFloat f) n = float_lt_int f n"
| "json_number_lt x n = False"

text \<open>
  "\<open>val\<close> parses as a JSON object containing the key \<^verbatim>\<open>age\<close> whose value is a number
  strictly greater than 30."
\<close>

definition age_exceeds_30 :: "pylib \<Rightarrow> string \<Rightarrow> bool" where
  "age_exceeds_30 L val =
     (case json_loads L val of
        Inr (JDict d) \<Rightarrow> (case map_of d ''age'' of Some x \<Rightarrow> json_number_gt x 30 | None \<Rightarrow> False)
      | _ \<Rightarrow> False)"

text \<open>The age group of an accepted record: \<^verbatim>\<open>middle\<close> below 35, \<^verbatim>\<open>senior\<close> otherwise.\<close>

definition age_group_of :: "json \<Rightarrow> string" where
  "age_group_of age = (if json_number_lt age 35 then ''middle'' else ''senior'')"

text \<open>
  "The object \<open>d'\<close> has exactly the keys of \<open>d\<close>, the value of every key other than
  \<^verbatim>\<open>name\<close> is unchanged, and the value of \<^verbatim>\<open>name\<close> (when present) is the uppercase
  of the original": the original must then be a string, as only a string has an uppercase.
\<close>

definition only_name_uppercased ::
  "pylib \<Rightarrow> (string \<times> json) list \<Rightarrow> (string \<times> json) list \<Rightarrow> bool" where
  "only_name_uppercased L d d' =
     (set (map fst d') = set (map fst d) \<and>
      list_all (\<lambda>k. k = ''name'' \<or> map_of d' k = map_of d k) (map fst d) \<and>
      (case map_of d ''name'' of
         None \<Rightarrow> True
       | Some x \<Rightarrow> (case x of JStr s \<Rightarrow> map_of d' ''name'' = Some (JStr (str_upper L s))
                    | _ \<Rightarrow> False)))"

text \<open>
  "For a value that parses as a JSON object, \<^verbatim>\<open>transform_value\<close> of
  transform\_uppercase\_name.py returns a JSON object with only the name uppercased."
\<close>

definition uppercase_frame_claim :: "pylib \<Rightarrow> string \<Rightarrow> string \<Rightarrow> bool" where
  "uppercase_frame_claim L key val =
     (case json_loads L val of
        Inr (JDict d) \<Rightarrow>
          (case transform_uppercase_name_transform_value L key val of
             Inr out \<Rightarrow>
               (case json_loads L out of
                  Inr (JDict d') \<Rightarrow> only_name_uppercased L d d'
                | _ \<Rightarrow> False)
           | Inl e \<Rightarrow> False)
      | _ \<Rightarrow> True)"

text \<open>
  What add\_timestamp.py makes of an object at the clock reading \<open>now\<close>: the object
  with \<^verbatim>\<open>processed_at\<close> set to the reading followed by \<^verbatim>\<open>Z\<close>, then
  \<^verbatim>\<open>transform_version\<close> set to \<^verbatim>\<open>1.0\<close>.
\<close>

definition stamped :: "string \<Rightarrow> (string \<times> json) list \<Rightarrow> json" where
  "stamped now d =
     JDict (AList.update ''transform_version'' (JStr ''1.0'')
             (AList.update ''processed_at'' (JStr (now @ ''Z'')) d))"

section \<open>The transform pipeline\<close>

text \<open>
  The Transform Pipeline Engine, which runs the callbacks over a key range, is not among
  the repository's source files; only the example callbacks are. Every definition of this
  section is modelled from the specification (sections 3, 4, 6 and 7) and names the
  component of the engine it stands for and the sentence it follows.
\<close>

text \<open>Modelled from the spec: the Record of section 3, a key and a value of the engine.\<close>

type_synonym kv = "string \<times> string"

text \<open>Modelled from the spec: the Decision of section 3, one per scanned record.\<close>

datatype decision = Skipped | Transformed | Failed | Unchanged

text \<open>
  Modelled from the spec: the job-level errors of the taxonomy in section 7 (the
  per-record CallbackError and CallbackTimeout are the errors the callbacks return).
\<close>

datatype job_error = StoreUnavailable | ScanIOError | BatchCommitError | Cancelled

text \<open>
  Modelled from the spec: the engine's \<^verbatim>\<open>keyRangeOrPrefix\<close> option (section 6), "a
  prefix or explicit start/end key".
\<close>

datatype key_range = Prefix string | Range string string

text \<open>
  Modelled from the spec: the engine's \<^verbatim>\<open>batchSize\<close> option (section 6), a "count or
  byte-size threshold".
\<close>

datatype batch_threshold = Count nat | Bytes nat

text \<open>
  Modelled from the spec: what the snapshot scan yields (section 4.1), a record or an I/O
  error of the underlying engine, which is fatal.
\<close>

datatype scan_step = Record string string | IOError

text \<open>
  Modelled from the spec: the store capability of section 6. \<open>openSnapshotScan\<close> returns
  the ordered records of the range as frozen at the call, or \<open>None\<close> (StoreUnavailable);
  \<open>commitBatch\<close> returns the store with the whole batch written, or \<open>None\<close> with nothing
  written.
\<close>

record 'st store_cap =
  openSnapshotScan :: "'st \<Rightarrow> string \<Rightarrow> key_range \<Rightarrow> scan_step list option"
  commitBatch :: "'st \<Rightarrow> string \<Rightarrow> kv list \<Rightarrow> 'st option"

text \<open>
  Modelled from the spec: the callback host capability of section 6, an optional predicate
  and a transform, each returning its result or the error it raised.
\<close>

record 'e callbacks =
  predicate :: "(string \<Rightarrow> string \<Rightarrow> 'e + bool) option"
  transform :: "string \<Rightarrow> string \<Rightarrow> 'e + string"

text \<open>
  Modelled from the spec: the job configuration of section 6. The optional
  \<^verbatim>\<open>perRecordTimeout\<close> is enforced by the callback host, which then returns a
  CallbackTimeout as the callback's error; it is no field here.
\<close>

record job_config =
  columnFamily :: string
  keyRangeOrPrefix :: key_range
  dryRun :: bool
  batchSize :: batch_threshold
  maxErrorsRecorded :: "nat option"

text \<open>
  Modelled from the spec: the JobReport of section 3, with the \<open>unchanged\<close> counter that
  section 8 names and the mark of an incomplete (cancelled) job of section 4.4.
\<close>

record 'e job_report =
  scanned :: nat
  skipped :: nat
  transformed :: nat
  failed :: nat
  unchanged :: nat
  written :: nat
  failures :: "(string \<times> 'e) list"
  incomplete :: bool

text \<open>
  Modelled from the spec: what one pipeline instance owns (section 5): its report, the
  Decisions taken so far in scan order, the BatchCommitter's buffer of staged writes, the
  DryRunReporter's entries (key, old value, new value), and the store it commits to.
\<close>

record ('st, 'e) pipeline =
  report :: "'e job_report"
  decisions :: "(string \<times> decision) list"
  buffer :: "kv list"
  dry_report :: "(string \<times> string \<times> string) list"
  store :: 'st

text \<open>Modelled from the spec: "JobReport is created at pipeline start" (section 3).\<close>

definition new_report :: "'e job_report" where
  "new_report = \<lparr>scanned = 0, skipped = 0, transformed = 0, failed = 0, unchanged = 0,
                  written = 0, failures = [], incomplete = False\<rparr>"

text \<open>
  Modelled from the spec: the engine's state Idle (section 4.4): nothing scanned, nothing
  staged, nothing reported.
\<close>

definition new_pipeline :: "'st \<Rightarrow> ('st, 'e) pipeline" where
  "new_pipeline s =
     \<lparr>report = new_report, decisions = [], buffer = [], dry_report = [], store = s\<rparr>"

text \<open>
  Modelled from the spec: RecordFilter (section 4.2): "If no predicate capability was
  supplied, always returns true."
\<close>

definition accepts :: "'e callbacks \<Rightarrow> string \<Rightarrow> string \<Rightarrow> 'e + bool" where
  "accepts cb k v = (case predicate cb of None \<Rightarrow> Inr True | Some p \<Rightarrow> p k v)"

text \<open>
  Modelled from the spec: what the engine learns of one record: its Decision, with the
  error of a Failed one and the new value of a Transformed one.
\<close>

datatype 'e verdict = Skip | Fail 'e | Same | Change string

text \<open>
  Modelled from the spec: the engine's transition rules 1 and 2 of section 4.4.
  Filtering: false gives Skipped, an error gives Failed. Transforming, only if accepted:
  an error gives Failed, a new value equal to the old gives Unchanged, any other gives
  Transformed.
\<close>

definition decide :: "'e callbacks \<Rightarrow> string \<Rightarrow> string \<Rightarrow> 'e verdict" where
  "decide cb k v =
     (case accepts cb k v of
        Inl e \<Rightarrow> Fail e
      | Inr ok \<Rightarrow>
          if \<not> ok then Skip
          else (case transform cb k v of
                  Inl e \<Rightarrow> Fail e
                | Inr new \<Rightarrow> if new = v then Same else Change new))"

text \<open>Modelled from the spec: the Decision (section 3) the engine records for a verdict.\<close>

fun decision_of :: "'e verdict \<Rightarrow> decision" where
  "decision_of Skip = Skipped"
| "decision_of (Fail e) = Failed"
| "decision_of Same = Unchanged"
| "decision_of (Change new) = Transformed"

text \<open>
  Modelled from the spec: ErrorCollector (section 4.7): it "MAY truncate long lists beyond
  a configured cap while still incrementing the failure counter".
\<close>

definition collect_error :: "job_config \<Rightarrow> string \<Rightarrow> 'e \<Rightarrow> 'e job_report \<Rightarrow> 'e job_report" where
  "collect_error cfg k e r =
     r\<lparr>failed := failed r + 1,
       failures := (case maxErrorsRecorded cfg of
                      None \<Rightarrow> failures r @ [(k, e)]
                    | Some cap \<Rightarrow> if length (failures r) < cap then failures r @ [(k, e)]
                                  else failures r)\<rparr>"

text \<open>Modelled from the spec: the JobReport is "built incrementally", one Decision at a time.\<close>

fun count_decision :: "job_config \<Rightarrow> string \<Rightarrow> 'e verdict \<Rightarrow> 'e job_report \<Rightarrow> 'e job_report" where
  "count_decision cfg k Skip r = r\<lparr>scanned := scanned r + 1, skipped := skipped r + 1\<rparr>"
| "count_decision cfg k (Fail e) r = collect_error cfg k e (r\<lparr>scanned := scanned r + 1\<rparr>)"
| "count_decision cfg k Same r = r\<lparr>scanned := scanned r + 1, unchanged := unchanged r + 1\<rparr>"
| "count_decision cfg k (Change new) r =
     r\<lparr>scanned := scanned r + 1, transformed := transformed r + 1\<rparr>"

text \<open>
  Modelled from the spec: the "cumulative byte size" of the BatchCommitter's buffer
  (section 4.5), the bytes of the keys and new values it holds.
\<close>

definition batch_bytes :: "kv list \<Rightarrow> nat" where
  "batch_bytes b = sum_list (map (\<lambda>w. length (fst w) + length (snd w)) b)"

text \<open>
  Modelled from the spec: BatchCommitter (section 4.5): the buffer is full "once buffer
  size reaches a configured threshold (by count or cumulative byte size)".
\<close>

definition batch_full :: "job_config \<Rightarrow> kv list \<Rightarrow> bool" where
  "batch_full cfg b =
     (case batchSize cfg of Count n \<Rightarrow> n \<le> length b | Bytes n \<Rightarrow> n \<le> batch_bytes b)"

text \<open>
  Modelled from the spec: BatchCommitter (section 4.5): a commit writes the buffer "as one
  atomic batch to the store and clears it"; the batch counts as written once committed; a
  failed commit (\<open>None\<close>) leaves nothing written.
\<close>

definition commit_buffer ::
  "'st store_cap \<Rightarrow> job_config \<Rightarrow> ('st, 'e) pipeline \<Rightarrow> ('st, 'e) pipeline option" where
  "commit_buffer caps cfg p =
     (case commitBatch caps (store p) (columnFamily cfg) (buffer p) of
        None \<Rightarrow> None
      | Some s' \<Rightarrow>
          Some (p\<lparr>store := s', buffer := [],
                  report := (report p)\<lparr>written := written (report p) + length (buffer p)\<rparr>\<rparr>))"

text \<open>Modelled from the spec: \<^verbatim>\<open>flushIfFull()\<close> of the BatchCommitter (section 4.5).\<close>

definition flushIfFull ::
  "'st store_cap \<Rightarrow> job_config \<Rightarrow> ('st, 'e) pipeline \<Rightarrow> ('st, 'e) pipeline option" where
  "flushIfFull caps cfg p =
     (if buffer p \<noteq> [] \<and> batch_full cfg (buffer p) then commit_buffer caps cfg p else Some p)"

text \<open>
  Modelled from the spec: \<^verbatim>\<open>flushRemaining()\<close> of the BatchCommitter (section 4.5),
  which commits "any partial batch".
\<close>

definition flushRemaining ::
  "'st store_cap \<Rightarrow> job_config \<Rightarrow> ('st, 'e) pipeline \<Rightarrow> ('st, 'e) pipeline option" where
  "flushRemaining caps cfg p =
     (if buffer p \<noteq> [] then commit_buffer caps cfg p else Some p)"

text \<open>
  Modelled from the spec: rule 3 of section 4.4, Staging "only if Transformed and
  changed": to the BatchCommitter in a real run, to the DryRunReporter in a dry run.
  Unchanged records are not staged (the default policy).
\<close>

definition stage ::
  "job_config \<Rightarrow> string \<Rightarrow> string \<Rightarrow> 'e verdict \<Rightarrow> ('st, 'e) pipeline \<Rightarrow> ('st, 'e) pipeline" where
  "stage cfg k v d p =
     (case d of
        Change new \<Rightarrow>
          if dryRun cfg then p\<lparr>dry_report := dry_report p @ [(k, v, new)]\<rparr>
          else p\<lparr>buffer := buffer p @ [(k, new)]\<rparr>
      | _ \<Rightarrow> p)"

text \<open>
  Modelled from the spec: one record's pass through Filtering, Transforming and Staging;
  its Decision is "fully determined before the next key is visited".
\<close>

definition visit ::
  "job_config \<Rightarrow> 'e callbacks \<Rightarrow> string \<Rightarrow> string \<Rightarrow> ('st, 'e) pipeline \<Rightarrow> ('st, 'e) pipeline" where
  "visit cfg cb k v p =
     (let d = decide cb k v in
      stage cfg k v d
        (p\<lparr>report := count_decision cfg k d (report p),
           decisions := decisions p @ [(k, decision_of d)]\<rparr>))"

text \<open>
  Modelled from the spec: the state machine of section 4.4 over the scanned sequence.
  \<open>cancelled n\<close> is the cancellation signal as read at the record boundary after \<open>n\<close>
  records. At the end of the scan, Draining flushes the partial batch. On cancellation
  the staged batch is flushed and the report marked incomplete. A scan I/O error and a
  failed batch commit abort the job at once; the report returned then counts as written
  only the batches committed before.
\<close>

fun run_records ::
  "'st store_cap \<Rightarrow> job_config \<Rightarrow> 'e callbacks \<Rightarrow> (nat \<Rightarrow> bool) \<Rightarrow> scan_step list \<Rightarrow>
   ('st, 'e) pipeline \<Rightarrow> ('st, 'e) pipeline \<times> job_error option" where
  "run_records caps cfg cb cancelled [] p =
     (case flushRemaining caps cfg p of
        None \<Rightarrow> (p, Some BatchCommitError)
      | Some p' \<Rightarrow> (p', None))"
| "run_records caps cfg cb cancelled (x # xs) p =
     (if cancelled (scanned (report p)) then
        (case flushRemaining caps cfg p of
           None \<Rightarrow> (p, Some BatchCommitError)
         | Some p' \<Rightarrow> (p'\<lparr>report := (report p')\<lparr>incomplete := True\<rparr>\<rparr>, Some Cancelled))
      else
        (case x of
           IOError \<Rightarrow> (p, Some ScanIOError)
         | Record k v \<Rightarrow>
             (let p1 = visit cfg cb k v p in
              case flushIfFull caps cfg p1 of
                None \<Rightarrow> (p1, Some BatchCommitError)
              | Some p2 \<Rightarrow> run_records caps cfg cb cancelled xs p2)))"

text \<open>
  Modelled from the spec: a job (sections 4.1 and 7): the scan is opened once, on the
  store as it is at the start, so the job's own commits do not reach it; StoreUnavailable
  aborts before any work. The job always returns its pipeline (with the JobReport) and
  the error that ended it, if any.
\<close>

definition run_job ::
  "'st store_cap \<Rightarrow> job_config \<Rightarrow> 'e callbacks \<Rightarrow> (nat \<Rightarrow> bool) \<Rightarrow> 'st \<Rightarrow>
   ('st, 'e) pipeline \<times> job_error option" where
  "run_job caps cfg cb cancelled s =
     (case openSnapshotScan caps s (columnFamily cfg) (keyRangeOrPrefix cfg) of
        None \<Rightarrow> (new_pipeline s, Some StoreUnavailable)
      | Some steps \<Rightarrow> run_records caps cfg cb cancelled steps (new_pipeline s))"

text \<open>
  Modelled from the spec: the first of the two jobs section 8 compares, the engine's job
  in real mode.
\<close>

definition real_run ::
  "'st store_cap \<Rightarrow> job_config \<Rightarrow> 'e callbacks \<Rightarrow> (nat \<Rightarrow> bool) \<Rightarrow> 'st \<Rightarrow>
   ('st, 'e) pipeline \<times> job_error option" where
  "real_run caps cfg cb cancelled s = run_job caps (cfg\<lparr>dryRun := False\<rparr>) cb cancelled s"

text \<open>
  Modelled from the spec: the second of the two jobs section 8 compares, the same job of
  the engine in dry-run mode on the same store.
\<close>

definition dry_run ::
  "'st store_cap \<Rightarrow> job_config \<Rightarrow> 'e callbacks \<Rightarrow> (nat \<Rightarrow> bool) \<Rightarrow> 'st \<Rightarrow>
   ('st, 'e) pipeline \<times> job_error option" where
  "dry_run caps cfg cb cancelled s = run_job caps (cfg\<lparr>dryRun := True\<rparr>) cb cancelled s"

text \<open>
  Modelled from the spec: the store after the engine has committed a sequence of batches,
  one \<^verbatim>\<open>commitBatch\<close> each, in order (section 4.5: each batch is atomic, the
  batches are not atomic with respect to each other); \<open>None\<close> when a commit fails.
\<close>

fun commit_all :: "'st store_cap \<Rightarrow> string \<Rightarrow> 'st \<Rightarrow> kv list list \<Rightarrow> 'st option" where
  "commit_all caps cf s [] = Some s"
| "commit_all caps cf s (b # bs) =
     (case commitBatch caps s cf b of None \<Rightarrow> None | Some s' \<Rightarrow> commit_all caps cf s' bs)"

text \<open>
  Modelled from the spec: the writes the DryRunReporter's entries (key, old value, new
  value) announce (section 4.6): each key with its new value.
\<close>

definition new_values :: "(string \<times> string \<times> string) list \<Rightarrow> kv list" where
  "new_values entries = map (\<lambda>e. (fst e, snd (snd e))) entries"

text \<open>
  The callbacks of filter\_by\_age.py (from the source), as the callback host hands them
  to a job.
\<close>

definition filter_by_age_callbacks :: "pylib \<Rightarrow> exn callbacks" where
  "filter_by_age_callbacks L =
     \<lparr>predicate = Some (filter_by_age_should_process L),
      transform = filter_by_age_transform_value L\<rparr>"

text \<open>
  Invariants of the modelled engine, used in the proofs below. Two pipelines agree on the
  Decisions and on every part of the report but \<open>written\<close>:
\<close>

definition same_decisions :: "('st, 'e) pipeline \<Rightarrow> ('st, 'e) pipeline \<Rightarrow> bool" where
  "same_decisions p q =
     (decisions p = decisions q \<and>
      scanned (report p) = scanned (report q) \<and>
      skipped (report p) = skipped (report q) \<and>
      transformed (report p) = transformed (report q) \<and>
      failed (report p) = failed (report q) \<and>
      unchanged (report p) = unchanged (report q) \<and>
      failures (report p) = failures (report q) \<and>
      incomplete (report p) = incomplete (report q))"

text \<open>
  The real run's store is the starting store with some batches committed, and those
  batches followed by the buffer are the writes \<open>ws\<close>; \<open>written\<close> counts the committed
  ones:
\<close>

definition writes_match ::
  "'st store_cap \<Rightarrow> string \<Rightarrow> 'st \<Rightarrow> ('st, 'e) pipeline \<Rightarrow> kv list \<Rightarrow> bool" where
  "writes_match caps cf s0 p ws =
     (\<exists>B. commit_all caps cf s0 B = Some (store p) \<and> concat B @ buffer p = ws \<and>
          written (report p) = length (concat B))"

text \<open>The counters of a report add up:\<close>

definition balanced :: "'e job_report \<Rightarrow> bool" where
  "balanced r = (scanned r = skipped r + transformed r + failed r + unchanged r)"

text \<open>No record has failed so far:\<close>

definition no_failures :: "('st, 'e) pipeline \<Rightarrow> bool" where
  "no_failures p = (failed (report p) = 0 \<and> failures (report p) = [])"

section \<open>A fragment of the json module for closed examples\<close>

text \<open>
  The theorems below hold for every library \<open>L\<close>. Closed examples need one: \<open>sample_lib\<close>
  is CPython's \<^verbatim>\<open>json.loads\<close> and \<^verbatim>\<open>json.dumps\<close> (default arguments) on the
  documents listed in \<open>sample_docs\<close>, each a pair of a text and the object it parses to,
  the text being what \<^verbatim>\<open>json.dumps\<close> prints for the object. Outside the list
  \<open>sample_loads\<close> and \<open>sample_dumps\<close> raise; of the texts outside the list the examples use
  only \<^verbatim>\<open>not json\<close>, which \<^verbatim>\<open>json.loads\<close> rejects too. \<open>ascii_upper\<close> is
  \<^verbatim>\<open>str.upper\<close> on ASCII characters.
\<close>

definition sample_docs :: "(string \<times> json) list" where
  "sample_docs =
    [(''{}'', JDict []),
     (''{\"name\": \"bob\"}'', JDict [(''name'', JStr ''bob'')]),
     (''{\"name\": \"BOB\"}'', JDict [(''name'', JStr ''BOB'')]),
     (''{\"name\": 5}'', JDict [(''name'', JInt 5)]),
     (''[\"name\"]'', JList [JStr ''name'']),
     (''{\"age\": 31}'', JDict [(''age'', JInt 31)]),
     (''{\"age\": 31, \"age_group\": \"middle\"}'',
        JDict [(''age'', JInt 31), (''age_group'', JStr ''middle'')]),
     (''{\"age\": 20}'', JDict [(''age'', JInt 20)]),
     (''{\"processed_at\": \"2024-01-01T00:00:00Z\", \"transform_version\": \"1.0\"}'',
        JDict [(''processed_at'', JStr ''2024-01-01T00:00:00Z''),
               (''transform_version'', JStr ''1.0'')]),
     (''{\"processed_at\": \"2024-01-01T00:00:01Z\", \"transform_version\": \"1.0\"}'',
        JDict [(''processed_at'', JStr ''2024-01-01T00:00:01Z''),
               (''transform_version'', JStr ''1.0'')])]"

definition sample_loads :: "string \<Rightarrow> exn + json" where
  "sample_loads s =
     (case map_of sample_docs s of None \<Rightarrow> Inl JSONDecodeError | Some d \<Rightarrow> Inr d)"

definition sample_dumps :: "json \<Rightarrow> exn + string" where
  "sample_dumps d =
     (case map_of (map (\<lambda>p. (snd p, fst p)) sample_docs) d of
        None \<Rightarrow> Inl ValueError
      | Some s \<Rightarrow> Inr s)"

definition ascii_upper :: "char \<Rightarrow> char" where
  "ascii_upper c =
     (let n = (of_char c :: nat) in if 97 \<le> n \<and> n \<le> 122 then char_of (n - 32) else c)"

definition sample_lib :: pylib where
  "sample_lib =
     \<lparr>json_loads = sample_loads, json_dumps = sample_dumps, str_upper = map ascii_upper\<rparr>"

text \<open>
  A store for closed examples: one column family, \<^verbatim>\<open>users\<close>, held as a list of records
  in key order; a scan selects the range, a commit writes every pair of the batch.
\<close>

fun str_less :: "string \<Rightarrow> string \<Rightarrow> bool" where
  "str_less [] [] = False"
| "str_less [] (d # ds) = True"
| "str_less (c # cs) [] = False"
| "str_less (c # cs) (d # ds) =
     ((of_char c :: nat) < of_char d \<or> (c = d \<and> str_less cs ds))"

fun in_range :: "key_range \<Rightarrow> string \<Rightarrow> bool" where
  "in_range (Prefix p) k = startswith k p"
| "in_range (Range lo hi) k = (\<not> str_less k lo \<and> str_less k hi)"

definition mem_store :: "kv list store_cap" where
  "mem_store =
     \<lparr>openSnapshotScan = (\<lambda>s cf r.
        if cf = ''users''
        then Some (map (\<lambda>w. Record (fst w) (snd w)) (filter (\<lambda>w. in_range r (fst w)) s))
        else None),
      commitBatch = (\<lambda>s cf b.
        if cf = ''users'' then Some (foldl (\<lambda>s w. AList.update (fst w) (snd w) s) s b)
        else None)\<rparr>"

definition users :: "kv list" where
  "users = [(''u1'', ''{\"age\": 20}''), (''u2'', ''{\"age\": 31}''), (''u3'', ''not json'')]"

definition users_job :: job_config where
  "users_job = \<lparr>columnFamily = ''users'', keyRangeOrPrefix = Prefix ''u'', dryRun = False,
                 batchSize = Count 2, maxErrorsRecorded = None\<rparr>"

text \<open>
  The same store with every commit failing, and the same job committing after every
  staged write.
\<close>

definition failing_store :: "kv list store_cap" where
  "failing_store = mem_store\<lparr>commitBatch := (\<lambda>s cf b. None)\<rparr>"

definition users_job_batch1 :: job_config where
  "users_job_batch1 = users_job\<lparr>batchSize := Count 1\<rparr>"

section \<open>Properties of the example scripts\<close>

lemma try_except_never_raises: "\<exists>x. try_except body fallback = Inr x"
  by (cases body) (simp_all add: try_except_def)

lemma sample_loads_not_json: "json_loads sample_lib ''not json'' = Inl JSONDecodeError"
  by (simp add: sample_lib_def sample_loads_def sample_docs_def)

lemma sample_loads_empty: "json_loads sample_lib ''{}'' = Inr (JDict [])"
  by (simp add: sample_lib_def sample_loads_def sample_docs_def)

lemma sample_loads_bob:
  "json_loads sample_lib ''{\"name\": \"bob\"}'' = Inr (JDict [(''name'', JStr ''bob'')])"
  by (simp add: sample_lib_def sample_loads_def sample_docs_def)

lemma sample_loads_name5:
  "json_loads sample_lib ''{\"name\": 5}'' = Inr (JDict [(''name'', JInt 5)])"
  by (simp add: sample_lib_def sample_loads_def sample_docs_def)

lemma sample_loads_name_list:
  "json_loads sample_lib ''[\"name\"]'' = Inr (JList [JStr ''name''])"
  by (simp add: sample_lib_def sample_loads_def sample_docs_def)

lemma sample_loads_age31:
  "json_loads sample_lib ''{\"age\": 31}'' = Inr (JDict [(''age'', JInt 31)])"
  by (simp add: sample_lib_def sample_loads_def sample_docs_def)

lemma sample_dumps_BOB:
  "json_dumps sample_lib (JDict [(''name'', JStr ''BOB'')]) = Inr ''{\"name\": \"BOB\"}''"
  by (simp add: sample_lib_def sample_dumps_def sample_docs_def)

lemma sample_dumps_age31_middle:
  "json_dumps sample_lib (JDict [(''age'', JInt 31), (''age_group'', JStr ''middle'')])
     = Inr ''{\"age\": 31, \"age_group\": \"middle\"}''"
  by (simp add: sample_lib_def sample_dumps_def sample_docs_def)

lemma sample_dumps_ts0:
  "json_dumps sample_lib (JDict [(''processed_at'', JStr ''2024-01-01T00:00:00Z''),
                                 (''transform_version'', JStr ''1.0'')])
   = Inr ''{\"processed_at\": \"2024-01-01T00:00:00Z\", \"transform_version\": \"1.0\"}''"
  by (simp add: sample_lib_def sample_dumps_def sample_docs_def)

lemma sample_dumps_ts1:
  "json_dumps sample_lib (JDict [(''processed_at'', JStr ''2024-01-01T00:00:01Z''),
                                 (''transform_version'', JStr ''1.0'')])
   = Inr ''{\"processed_at\": \"2024-01-01T00:00:01Z\", \"transform_version\": \"1.0\"}''"
  by (simp add: sample_lib_def sample_dumps_def sample_docs_def)

lemma sample_upper_bob: "str_upper sample_lib ''bob'' = ''BOB''"
  unfolding sample_lib_def by code_simp

text \<open>The fragment has the two laws of the json module that idempotence rests on.\<close>

lemma map_of_swap:
  "distinct (map fst xs) \<Longrightarrow> map_of (map (\<lambda>p. (snd p, fst p)) xs) b = Some a
     \<Longrightarrow> map_of xs a = Some b"
  by (auto dest!: map_of_SomeD)

lemma sample_roundtrip:
  assumes "json_dumps sample_lib x = Inr s"
  shows "json_loads sample_lib s = Inr x"
proof -
  have dist: "distinct (map fst sample_docs)"
    by (simp add: sample_docs_def)
  from assms have "map_of (map (\<lambda>p. (snd p, fst p)) sample_docs) x = Some s"
    by (simp add: sample_lib_def sample_dumps_def split: option.splits)
  from map_of_swap[OF dist this] show ?thesis
    by (simp add: sample_lib_def sample_loads_def)
qed

lemma ascii_upper_idem: "ascii_upper (ascii_upper c) = ascii_upper c"
  by (auto simp: ascii_upper_def Let_def)

lemma sample_upper_idem:
  "str_upper sample_lib (str_upper sample_lib s) = str_upper sample_lib s"
  by (simp add: sample_lib_def ascii_upper_idem)

subsection \<open>filter\_by\_age.py: the predicate\<close>

lemma py_gt_number: "py_gt x 30 = Inr b \<Longrightarrow> b = json_number_gt x 30"
  by (cases x) (auto split: if_splits)

lemma py_gt_raises: "py_gt x 30 = Inl e \<Longrightarrow> \<not> json_number_gt x 30"
  by (cases x) auto

lemma py_gt_30:
  "py_gt x 30 =
     (case x of
        JInt i \<Rightarrow> Inr (30 < i)
      | JBool b \<Rightarrow> Inr False
      | JFloat f \<Rightarrow> Inr (float_gt_int f 30)
      | _ \<Rightarrow> Inl TypeError)"
  by (cases x) auto

lemma should_process_age:
  "filter_by_age_should_process L key val = Inr (age_exceeds_30 L val)"
  by (auto simp: filter_by_age_should_process_def age_exceeds_30_def py_bind_def try_except_def
      py_gt_30 split: sum.splits json.splits option.splits)

text \<open>
  C2. \<^verbatim>\<open>should_process\<close> of filter\_by\_age.py returns \<^verbatim>\<open>True\<close> exactly when the value
  parses as a JSON object with a key \<^verbatim>\<open>age\<close> whose value is a number strictly greater than
  30, and \<^verbatim>\<open>False\<close> otherwise: also when the value is not valid JSON or has no
  \<^verbatim>\<open>age\<close> field.
\<close>

theorem filter_by_age_accepts_exactly_over_30:
  "filter_by_age_should_process L key val = Inr (age_exceeds_30 L val)"
proof (cases "json_loads L val")
  case (Inl e)
  then show ?thesis
    by (simp add: filter_by_age_should_process_def age_exceeds_30_def py_bind_def try_except_def)
next
  case (Inr data)
  show ?thesis
  proof (cases data)
    case (JDict d)
    show ?thesis
    proof (cases "map_of d ''age''")
      case None
      with Inr JDict show ?thesis
        by (simp add: filter_by_age_should_process_def age_exceeds_30_def py_bind_def
            try_except_def)
    next
      case (Some x)
      with Inr JDict show ?thesis
        by (cases "py_gt x 30")
           (auto simp: filter_by_age_should_process_def age_exceeds_30_def py_bind_def
              try_except_def dest: py_gt_number py_gt_raises)
    qed
  qed (use Inr in \<open>simp_all add: filter_by_age_should_process_def age_exceeds_30_def
         py_bind_def try_except_def\<close>)
qed

subsection \<open>Malformed input\<close>

text \<open>
  C8. When \<^verbatim>\<open>json.loads(value)\<close> raises (the value is not valid JSON), each of the four
  \<^verbatim>\<open>transform_value\<close> functions returns \<^verbatim>\<open>value\<close> itself.
\<close>

theorem transform_value_identity_on_malformed:
  assumes "json_loads L val = Inl e"
  shows "transform_value L sc now key val = Inr val"
  using assms
  by (cases sc)
     (simp_all add: add_timestamp_transform_value_def filter_by_age_transform_value_def
        flatten_nested_json_transform_value_def transform_uppercase_name_transform_value_def
        py_bind_def try_except_def)

theorem transform_value_identity_on_malformed_witness:
  "json_loads sample_lib ''not json'' = Inl JSONDecodeError \<and>
   transform_value sample_lib Add_timestamp ''2024-01-01T00:00:00'' ''u1'' ''not json''
     = Inr ''not json'' \<and>
   transform_value sample_lib Filter_by_age ''2024-01-01T00:00:00'' ''u1'' ''not json''
     = Inr ''not json'' \<and>
   transform_value sample_lib Flatten_nested_json ''2024-01-01T00:00:00'' ''u1'' ''not json''
     = Inr ''not json'' \<and>
   transform_value sample_lib Transform_uppercase_name ''2024-01-01T00:00:00'' ''u1'' ''not json''
     = Inr ''not json''"
  using sample_loads_not_json
    transform_value_identity_on_malformed[OF sample_loads_not_json]
  by blast

subsection \<open>filter\_by\_age.py: the age group of an accepted record\<close>

lemma py_lt_number: "json_number_gt x 30 \<Longrightarrow> py_lt x n = Inr (json_number_lt x n)"
  by (cases x) auto

lemma gt30_not_lt25: "json_number_gt x 30 \<Longrightarrow> \<not> json_number_lt x 25"
proof (cases x)
  case (JFloat f)
  assume "json_number_gt x 30"
  with JFloat show ?thesis by (cases f) auto
qed auto

text \<open>
  C9. For a value that \<^verbatim>\<open>should_process\<close> of filter\_by\_age.py accepts, the value is a
  JSON object whose \<^verbatim>\<open>age\<close> is a number above 30, and \<^verbatim>\<open>transform_value\<close>
  serialises that object with \<^verbatim>\<open>age_group\<close> set to \<^verbatim>\<open>middle\<close> when the age is
  below 35 and to \<^verbatim>\<open>senior\<close> otherwise (returning the value unchanged should
  \<^verbatim>\<open>json.dumps\<close> raise); the label is never \<^verbatim>\<open>young\<close>.
\<close>

theorem filter_by_age_group_of_accepted:
  assumes "filter_by_age_should_process L key val = Inr True"
  shows "\<exists>d age. json_loads L val = Inr (JDict d) \<and> map_of d ''age'' = Some age \<and>
           json_number_gt age 30 \<and> age_group_of age \<noteq> ''young'' \<and>
           filter_by_age_transform_value L key val =
             try_except
               (json_dumps L (JDict (AList.update ''age_group'' (JStr (age_group_of age)) d)))
               val"
proof -
  from assms have acc: "age_exceeds_30 L val" by (simp add: should_process_age)
  then obtain d where ld: "json_loads L val = Inr (JDict d)"
    by (auto simp: age_exceeds_30_def split: sum.splits json.splits)
  with acc obtain age where ag: "map_of d ''age'' = Some age" and gt: "json_number_gt age 30"
    by (auto simp: age_exceeds_30_def split: option.splits)
  have lt25: "py_lt age 25 = Inr False"
    using py_lt_number[OF gt, of 25] gt30_not_lt25[OF gt] by simp
  have lt35: "py_lt age 35 = Inr (json_number_lt age 35)"
    by (rule py_lt_number[OF gt])
  have "filter_by_age_transform_value L key val =
          try_except
            (json_dumps L (JDict (AList.update ''age_group'' (JStr (age_group_of age)) d))) val"
    by (simp add: filter_by_age_transform_value_def py_bind_def ld ag lt25 lt35 age_group_of_def)
  moreover have "age_group_of age \<noteq> ''young''"
    by (simp add: age_group_of_def)
  ultimately show ?thesis using ld ag gt by blast
qed

lemma filter_by_age_accepts_age31:
  "filter_by_age_should_process sample_lib ''u1'' ''{\"age\": 31}'' = Inr True"
  by (simp add: should_process_age age_exceeds_30_def sample_loads_age31)

theorem filter_by_age_group_of_accepted_witness:
  "filter_by_age_should_process sample_lib ''u1'' ''{\"age\": 31}'' = Inr True \<and>
   filter_by_age_transform_value sample_lib ''u1'' ''{\"age\": 31}''
     = Inr ''{\"age\": 31, \"age_group\": \"middle\"}''"
proof -
  note h = filter_by_age_accepts_age31
  from filter_by_age_group_of_accepted[OF h] obtain d age where
    "json_loads sample_lib ''{\"age\": 31}'' = Inr (JDict d)" "map_of d ''age'' = Some age"
    "filter_by_age_transform_value sample_lib ''u1'' ''{\"age\": 31}'' =
       try_except (json_dumps sample_lib
         (JDict (AList.update ''age_group'' (JStr (age_group_of age)) d))) ''{\"age\": 31}''"
    by blast
  then have "filter_by_age_transform_value sample_lib ''u1'' ''{\"age\": 31}''
     = Inr ''{\"age\": 31, \"age_group\": \"middle\"}''"
    by (auto simp: sample_loads_age31 age_group_of_def sample_dumps_age31_middle try_except_def)
  with h show ?thesis by simp
qed

subsection \<open>transform\_uppercase\_name.py: the predicate\<close>

text \<open>
  C7. The docstring of \<^verbatim>\<open>should_process\<close> says "Only process entries that have a 'name'
  field". The value \<^verbatim>\<open>["name"]\<close> parses as a JSON array, which has no fields, and
  \<^verbatim>\<open>'name' in data\<close> is element membership on a list: the predicate accepts it.
\<close>

theorem uppercase_should_process_accepts_name_list:
  "json_loads sample_lib ''[\"name\"]'' = Inr (JList [JStr ''name'']) \<and>
   transform_uppercase_name_should_process sample_lib ''u1'' ''[\"name\"]'' = Inr True"
  by (simp add: transform_uppercase_name_should_process_def sample_loads_name_list
      py_bind_def try_except_def)

subsection \<open>transform\_uppercase\_name.py: the transform\<close>

lemma uppercase_dict:
  "uppercase_name_field L (JDict d) =
     (case map_of d ''name'' of
        None \<Rightarrow> Inr (JDict d)
      | Some x \<Rightarrow>
          (case x of
             JStr s \<Rightarrow> Inr (JDict (AList.update ''name'' (JStr (str_upper L s)) d))
           | _ \<Rightarrow> Inl AttributeError))"
  by (auto simp: uppercase_name_field_def py_bind_def split: option.splits json.splits)

text \<open>What the statements produce they leave alone, \<^verbatim>\<open>upper\<close> being idempotent.\<close>

lemma uppercase_fixpoint:
  assumes up: "\<And>s. str_upper L (str_upper L s) = str_upper L s"
    and r: "uppercase_name_field L data = Inr data'"
  shows "uppercase_name_field L data' = Inr data'"
proof (cases data)
  case (JDict d)
  with r show ?thesis
    by (auto simp: uppercase_dict update_conv' up split: option.splits json.splits)
next
  case (JList xs)
  with r show ?thesis
    by (auto simp: uppercase_name_field_def py_bind_def split: if_splits)
next
  case (JStr s)
  with r show ?thesis
    by (auto simp: uppercase_name_field_def py_bind_def split: if_splits)
qed (use r in \<open>simp_all add: uppercase_name_field_def py_bind_def\<close>)

lemma uppercase_tv_bob:
  "transform_uppercase_name_transform_value sample_lib ''u1'' ''{\"name\": \"bob\"}''
      = Inr ''{\"name\": \"BOB\"}''"
  by (simp add: transform_uppercase_name_transform_value_def sample_loads_bob uppercase_dict
       sample_upper_bob sample_dumps_BOB py_bind_def try_except_def)

lemma uppercase_tv_name5:
  "transform_uppercase_name_transform_value sample_lib ''u1'' ''{\"name\": 5}''
     = Inr ''{\"name\": 5}''"
  by (simp add: transform_uppercase_name_transform_value_def sample_loads_name5 uppercase_dict
      py_bind_def try_except_def)

text \<open>
  C4. \<^verbatim>\<open>transform_value\<close> of transform\_uppercase\_name.py is idempotent: applying it to
  its own result returns that result. The proof uses two laws of the Python library:
  \<^verbatim>\<open>json.loads\<close> reads back what \<^verbatim>\<open>json.dumps\<close> printed, and
  \<^verbatim>\<open>str.upper\<close> is idempotent.
\<close>

theorem uppercase_transform_idempotent:
  assumes rt: "\<And>x s. json_dumps L x = Inr s \<Longrightarrow> json_loads L s = Inr x"
    and up: "\<And>s. str_upper L (str_upper L s) = str_upper L s"
  shows "py_bind (transform_uppercase_name_transform_value L key val)
           (transform_uppercase_name_transform_value L key)
         = transform_uppercase_name_transform_value L key val"
proof (cases "json_loads L val")
  case (Inl e)
  then show ?thesis
    by (simp add: transform_uppercase_name_transform_value_def py_bind_def try_except_def)
next
  case (Inr data)
  show ?thesis
  proof (cases "uppercase_name_field L data")
    case (Inl e)
    with Inr show ?thesis
      by (simp add: transform_uppercase_name_transform_value_def py_bind_def try_except_def)
  next
    case body: (Inr data')
    show ?thesis
    proof (cases "json_dumps L data'")
      case (Inl e)
      with Inr body show ?thesis
        by (simp add: transform_uppercase_name_transform_value_def py_bind_def try_except_def)
    next
      case out: (Inr s)
      have "json_loads L s = Inr data'"
        by (rule rt[OF out])
      moreover have "uppercase_name_field L data' = Inr data'"
        by (rule uppercase_fixpoint[OF up body])
      ultimately show ?thesis
        using Inr body out
        by (simp add: transform_uppercase_name_transform_value_def py_bind_def try_except_def)
    qed
  qed
qed

theorem uppercase_transform_idempotent_witness:
  "transform_uppercase_name_transform_value sample_lib ''u1'' ''{\"name\": \"bob\"}''
      = Inr ''{\"name\": \"BOB\"}'' \<and>
   transform_uppercase_name_transform_value sample_lib ''u1'' ''{\"name\": \"BOB\"}''
      = Inr ''{\"name\": \"BOB\"}''"
  using uppercase_transform_idempotent[of sample_lib "''u1''" "''{\"name\": \"bob\"}''",
          OF sample_roundtrip sample_upper_idem]
  by (simp add: uppercase_tv_bob py_bind_def)

text \<open>
  C10, as stated, fails where \<^verbatim>\<open>name\<close> is not a string: \<^verbatim>\<open>5.upper()\<close> raises
  AttributeError, the bare except returns the value unchanged, and the name of the
  returned object is not the uppercase of anything.
\<close>

theorem uppercase_frame_claim_fails_on_number_name:
  "json_loads sample_lib ''{\"name\": 5}'' = Inr (JDict [(''name'', JInt 5)]) \<and>
   transform_uppercase_name_transform_value sample_lib ''u1'' ''{\"name\": 5}''
     = Inr ''{\"name\": 5}'' \<and>
   \<not> uppercase_frame_claim sample_lib ''u1'' ''{\"name\": 5}''"
  by (simp add: uppercase_frame_claim_def uppercase_tv_name5 sample_loads_name5
      only_name_uppercased_def)

text \<open>
  C10, amended. For a value that parses as a JSON object \<open>d\<close>: without a \<^verbatim>\<open>name\<close> key
  the transform returns \<^verbatim>\<open>json.dumps\<close> of \<open>d\<close>; with a string \<^verbatim>\<open>name\<close> it
  returns \<^verbatim>\<open>json.dumps\<close> of an object with the same keys in the same order, the
  value of every key other than \<^verbatim>\<open>name\<close> unchanged and the name uppercased (in both
  cases the value itself should \<^verbatim>\<open>json.dumps\<close> raise); with a \<^verbatim>\<open>name\<close> that is
  not a string it returns the value unchanged.
\<close>

theorem uppercase_transform_frame:
  assumes "json_loads L val = Inr (JDict d)"
  shows "case map_of d ''name'' of
           None \<Rightarrow>
             transform_uppercase_name_transform_value L key val
               = try_except (json_dumps L (JDict d)) val
         | Some x \<Rightarrow>
             (case x of
                JStr s \<Rightarrow>
                  (\<exists>d'. transform_uppercase_name_transform_value L key val
                          = try_except (json_dumps L (JDict d')) val \<and>
                        map fst d' = map fst d \<and>
                        (\<forall>k. k \<noteq> ''name'' \<longrightarrow> map_of d' k = map_of d k) \<and>
                        map_of d' ''name'' = Some (JStr (str_upper L s)))
              | _ \<Rightarrow> transform_uppercase_name_transform_value L key val = Inr val)"
proof (cases "map_of d ''name''")
  case None
  with assms show ?thesis
    by (simp add: transform_uppercase_name_transform_value_def uppercase_dict py_bind_def)
next
  case (Some x)
  show ?thesis
  proof (cases x)
    case (JStr s)
    let ?d' = "AList.update ''name'' (JStr (str_upper L s)) d"
    have "''name'' \<in> set (map fst d)"
      using Some by (auto dest: map_of_SomeD intro: rev_image_eqI)
    then have keys: "map fst ?d' = map fst d"
      by (simp add: update_keys)
    have "transform_uppercase_name_transform_value L key val
            = try_except (json_dumps L (JDict ?d')) val"
      using assms Some JStr
      by (simp add: transform_uppercase_name_transform_value_def uppercase_dict py_bind_def)
    moreover have "\<forall>k. k \<noteq> ''name'' \<longrightarrow> map_of ?d' k = map_of d k"
      by (simp add: update_conv')
    moreover have "map_of ?d' ''name'' = Some (JStr (str_upper L s))"
      by (simp add: update_conv')
    ultimately show ?thesis
      using Some JStr keys by auto
  qed (use assms Some in \<open>simp_all add: transform_uppercase_name_transform_value_def
          uppercase_dict py_bind_def try_except_def\<close>)
qed

theorem uppercase_transform_frame_witness:
  "json_loads sample_lib ''{\"name\": \"bob\"}'' = Inr (JDict [(''name'', JStr ''bob'')]) \<and>
   transform_uppercase_name_transform_value sample_lib ''u1'' ''{\"name\": \"bob\"}''
      = Inr ''{\"name\": \"BOB\"}''"
proof -
  note h = sample_loads_bob
  from uppercase_transform_frame[OF h, of "''u1''"] obtain d' where
    tv: "transform_uppercase_name_transform_value sample_lib ''u1'' ''{\"name\": \"bob\"}''
          = try_except (json_dumps sample_lib (JDict d')) ''{\"name\": \"bob\"}''"
    and keys: "map fst d' = [''name'']"
    and nm: "map_of d' ''name'' = Some (JStr (str_upper sample_lib ''bob''))"
    by auto
  from keys obtain y where "d' = [(''name'', y)]"
    by (cases d') auto
  with nm have "d' = [(''name'', JStr ''BOB'')]"
    by (simp add: sample_upper_bob)
  with tv h show ?thesis
    by (simp add: sample_dumps_BOB try_except_def)
qed

subsection \<open>Which transforms are functions of key and value alone\<close>

lemma add_timestamp_at_0:
  "add_timestamp_transform_value sample_lib ''2024-01-01T00:00:00'' ''u1'' ''{}''
   = Inr ''{\"processed_at\": \"2024-01-01T00:00:00Z\", \"transform_version\": \"1.0\"}''"
  by (simp add: add_timestamp_transform_value_def sample_loads_empty py_bind_def try_except_def
      sample_dumps_ts0)

lemma add_timestamp_at_1:
  "add_timestamp_transform_value sample_lib ''2024-01-01T00:00:01'' ''u1'' ''{}''
   = Inr ''{\"processed_at\": \"2024-01-01T00:00:01Z\", \"transform_version\": \"1.0\"}''"
  by (simp add: add_timestamp_transform_value_def sample_loads_empty py_bind_def try_except_def
      sample_dumps_ts1)

text \<open>
  C1, as stated, fails for add\_timestamp.py: two calls on the same key and value, one
  second apart, return different texts.
\<close>

theorem add_timestamp_depends_on_clock:
  "transform_value sample_lib Add_timestamp ''2024-01-01T00:00:00'' ''u1'' ''{}''
     = Inr ''{\"processed_at\": \"2024-01-01T00:00:00Z\", \"transform_version\": \"1.0\"}'' \<and>
   transform_value sample_lib Add_timestamp ''2024-01-01T00:00:01'' ''u1'' ''{}''
     = Inr ''{\"processed_at\": \"2024-01-01T00:00:01Z\", \"transform_version\": \"1.0\"}'' \<and>
   transform_value sample_lib Add_timestamp ''2024-01-01T00:00:00'' ''u1'' ''{}''
     \<noteq> transform_value sample_lib Add_timestamp ''2024-01-01T00:00:01'' ''u1'' ''{}''"
  by (simp add: add_timestamp_at_0 add_timestamp_at_1)

lemma add_timestamp_non_object:
  assumes "\<And>d. json_loads L val \<noteq> Inr (JDict d)"
  shows "add_timestamp_transform_value L now key val = Inr val"
proof (cases "json_loads L val")
  case (Inl e)
  then show ?thesis
    by (simp add: add_timestamp_transform_value_def py_bind_def try_except_def)
next
  case (Inr data)
  with assms have "\<And>d. data \<noteq> JDict d"
    by auto
  then have "py_setitem data ''processed_at'' (JStr (now @ ''Z'')) = Inl TypeError"
    by (cases data) auto
  with Inr show ?thesis
    by (simp add: add_timestamp_transform_value_def py_bind_def try_except_def)
qed

lemma add_timestamp_object:
  assumes "json_loads L val = Inr (JDict d)"
  shows "add_timestamp_transform_value L now key val
           = try_except (json_dumps L (stamped now d)) val"
  using assms by (simp add: add_timestamp_transform_value_def py_bind_def stamped_def)

text \<open>Objects stamped at different clock readings differ in \<^verbatim>\<open>processed_at\<close>.\<close>

lemma stamped_inject: "stamped now1 d = stamped now2 d \<Longrightarrow> now1 = now2"
proof -
  assume "stamped now1 d = stamped now2 d"
  then have "map_of (AList.update ''transform_version'' (JStr ''1.0'')
                      (AList.update ''processed_at'' (JStr (now1 @ ''Z'')) d)) ''processed_at''
           = map_of (AList.update ''transform_version'' (JStr ''1.0'')
                      (AList.update ''processed_at'' (JStr (now2 @ ''Z'')) d)) ''processed_at''"
    by (simp add: stamped_def)
  then show ?thesis by (simp add: update_conv')
qed

lemma add_timestamp_differs:
  assumes rt: "\<And>x s. json_dumps L x = Inr s \<Longrightarrow> json_loads L s = Inr x"
    and ld: "json_loads L val = Inr (JDict d)"
    and ne: "now1 \<noteq> now2"
    and d1: "json_dumps L (stamped now1 d) = Inr s1"
    and d2: "json_dumps L (stamped now2 d) = Inr s2"
  shows "add_timestamp_transform_value L now1 key val
           \<noteq> add_timestamp_transform_value L now2 key val"
proof
  assume "add_timestamp_transform_value L now1 key val = add_timestamp_transform_value L now2 key val"
  then have "s1 = s2"
    using d1 d2 by (simp add: add_timestamp_object[OF ld] try_except_def)
  with rt[OF d1] rt[OF d2] have "stamped now1 d = stamped now2 d" by simp
  with ne show False by (auto dest: stamped_inject)
qed

lemma stamped_empty_0:
  "stamped ''2024-01-01T00:00:00'' [] = JDict [(''processed_at'', JStr ''2024-01-01T00:00:00Z''),
                                 (''transform_version'', JStr ''1.0'')]"
  by (simp add: stamped_def)

lemma stamped_empty_1:
  "stamped ''2024-01-01T00:00:01'' [] = JDict [(''processed_at'', JStr ''2024-01-01T00:00:01Z''),
                                 (''transform_version'', JStr ''1.0'')]"
  by (simp add: stamped_def)

text \<open>
  C1, amended. The transforms of filter\_by\_age.py, flatten\_nested\_json.py and
  transform\_uppercase\_name.py return equal results on equal key and value, whatever
  the clock reads. The transform of add\_timestamp.py also reads the clock: on a value
  that does not parse as a JSON object it returns the value, whatever the clock reads; on
  a value that parses as a JSON object it returns \<^verbatim>\<open>json.dumps\<close> of that object
  stamped with the clock reading (the value itself should \<^verbatim>\<open>json.dumps\<close> raise), so
  that two calls at different clock readings return different results whenever
  \<^verbatim>\<open>json.dumps\<close> succeeds on both stamped objects, \<^verbatim>\<open>json.loads\<close> reading back
  what \<^verbatim>\<open>json.dumps\<close> prints.
\<close>

theorem transform_value_function_of_key_value:
  "(sc \<noteq> Add_timestamp \<longrightarrow>
      transform_value L sc now1 key val = transform_value L sc now2 key val) \<and>
   ((\<forall>d. json_loads L val \<noteq> Inr (JDict d)) \<longrightarrow>
      transform_value L Add_timestamp now1 key val = Inr val) \<and>
   (\<forall>d. json_loads L val = Inr (JDict d) \<longrightarrow>
      transform_value L Add_timestamp now1 key val
        = try_except (json_dumps L (stamped now1 d)) val \<and>
      ((\<forall>x s. json_dumps L x = Inr s \<longrightarrow> json_loads L s = Inr x) \<and>
       now1 \<noteq> now2 \<and>
       (\<exists>s1. json_dumps L (stamped now1 d) = Inr s1) \<and>
       (\<exists>s2. json_dumps L (stamped now2 d) = Inr s2) \<longrightarrow>
       transform_value L Add_timestamp now1 key val
         \<noteq> transform_value L Add_timestamp now2 key val))"
proof (intro conjI allI impI)
  assume "sc \<noteq> Add_timestamp"
  then show "transform_value L sc now1 key val = transform_value L sc now2 key val"
    by (cases sc) simp_all
next
  assume "\<forall>d. json_loads L val \<noteq> Inr (JDict d)"
  then show "transform_value L Add_timestamp now1 key val = Inr val"
    by (simp add: add_timestamp_non_object)
next
  fix d assume "json_loads L val = Inr (JDict d)"
  then show "transform_value L Add_timestamp now1 key val
        = try_except (json_dumps L (stamped now1 d)) val"
    by (simp add: add_timestamp_object)
next
  fix d
  assume ld: "json_loads L val = Inr (JDict d)"
    and h: "(\<forall>x s. json_dumps L x = Inr s \<longrightarrow> json_loads L s = Inr x) \<and>
       now1 \<noteq> now2 \<and>
       (\<exists>s1. json_dumps L (stamped now1 d) = Inr s1) \<and>
       (\<exists>s2. json_dumps L (stamped now2 d) = Inr s2)"
  from h obtain s1 s2 where d1: "json_dumps L (stamped now1 d) = Inr s1"
    and d2: "json_dumps L (stamped now2 d) = Inr s2"
    by blast
  from h have rt: "\<And>x s. json_dumps L x = Inr s \<Longrightarrow> json_loads L s = Inr x" and ne: "now1 \<noteq> now2"
    by blast+
  from add_timestamp_differs[OF rt ld ne d1 d2]
  show "transform_value L Add_timestamp now1 key val \<noteq> transform_value L Add_timestamp now2 key val"
    by simp
qed

theorem transform_value_function_of_key_value_witness:
  "transform_value sample_lib Filter_by_age ''2024-01-01T00:00:00'' ''u1'' ''{\"age\": 31}''
     = transform_value sample_lib Filter_by_age ''2024-01-01T00:00:01'' ''u1'' ''{\"age\": 31}'' \<and>
   transform_value sample_lib Add_timestamp ''2024-01-01T00:00:00'' ''u1'' ''not json''
     = Inr ''not json'' \<and>
   transform_value sample_lib Add_timestamp ''2024-01-01T00:00:00'' ''u1'' ''{}''
     = Inr ''{\"processed_at\": \"2024-01-01T00:00:00Z\", \"transform_version\": \"1.0\"}'' \<and>
   transform_value sample_lib Add_timestamp ''2024-01-01T00:00:00'' ''u1'' ''{}''
     \<noteq> transform_value sample_lib Add_timestamp ''2024-01-01T00:00:01'' ''u1'' ''{}''"
proof -
  have rt: "\<forall>x s. json_dumps sample_lib x = Inr s \<longrightarrow> json_loads sample_lib s = Inr x"
    using sample_roundtrip by blast
  have ne: "''2024-01-01T00:00:00'' \<noteq> ''2024-01-01T00:00:01''"
    by simp
  have d0: "\<exists>s1. json_dumps sample_lib (stamped ''2024-01-01T00:00:00'' []) = Inr s1"
    by (simp add: stamped_empty_0 sample_dumps_ts0)
  have d1: "\<exists>s2. json_dumps sample_lib (stamped ''2024-01-01T00:00:01'' []) = Inr s2"
    by (simp add: stamped_empty_1 sample_dumps_ts1)
  have nj: "\<forall>d. json_loads sample_lib ''not json'' \<noteq> Inr (JDict d)"
    by (simp add: sample_loads_not_json)
  note a = transform_value_function_of_key_value[where sc = Filter_by_age and L = sample_lib
              and ?now1.0 = "''2024-01-01T00:00:00''" and ?now2.0 = "''2024-01-01T00:00:01''"
              and key = "''u1''" and val = "''{\"age\": 31}''"]
  note b = transform_value_function_of_key_value[where sc = Add_timestamp and L = sample_lib
              and ?now1.0 = "''2024-01-01T00:00:00''" and ?now2.0 = "''2024-01-01T00:00:01''"
              and key = "''u1''" and val = "''not json''"]
  note c = transform_value_function_of_key_value[where sc = Add_timestamp and L = sample_lib
              and ?now1.0 = "''2024-01-01T00:00:00''" and ?now2.0 = "''2024-01-01T00:00:01''"
              and key = "''u1''" and val = "''{}''"]
  from a have 1: "transform_value sample_lib Filter_by_age ''2024-01-01T00:00:00'' ''u1'' ''{\"age\": 31}''
     = transform_value sample_lib Filter_by_age ''2024-01-01T00:00:01'' ''u1'' ''{\"age\": 31}''"
    by simp
  from b nj have 2: "transform_value sample_lib Add_timestamp ''2024-01-01T00:00:00'' ''u1'' ''not json''
     = Inr ''not json''"
    by blast
  from c sample_loads_empty have 3: "transform_value sample_lib Add_timestamp ''2024-01-01T00:00:00'' ''u1'' ''{}''
        = try_except (json_dumps sample_lib (stamped ''2024-01-01T00:00:00'' [])) ''{}''"
    by blast
  from c sample_loads_empty rt ne d0 d1
  have 4: "transform_value sample_lib Add_timestamp ''2024-01-01T00:00:00'' ''u1'' ''{}''
     \<noteq> transform_value sample_lib Add_timestamp ''2024-01-01T00:00:01'' ''u1'' ''{}''"
    by blast
  from 1 2 3 4 show ?thesis
    by (simp add: stamped_empty_0 sample_dumps_ts0 try_except_def)
qed

section \<open>Properties of the pipeline\<close>

subsection \<open>The counters of the report\<close>

lemma balanced_count: "balanced r \<Longrightarrow> balanced (count_decision cfg k d r)"
  by (cases d) (simp_all add: balanced_def collect_error_def)

lemma report_stage [simp]: "report (stage cfg k v d p) = report p"
  by (simp add: stage_def split: verdict.splits)

lemma decisions_stage [simp]: "decisions (stage cfg k v d p) = decisions p"
  by (simp add: stage_def split: verdict.splits)

lemma balanced_visit: "balanced (report p) \<Longrightarrow> balanced (report (visit cfg cb k v p))"
  by (simp add: visit_def Let_def balanced_count)

lemma balanced_commit:
  "commit_buffer caps cfg p = Some p' \<Longrightarrow> balanced (report p) \<Longrightarrow> balanced (report p')"
  by (auto simp: commit_buffer_def balanced_def split: option.splits)

lemma balanced_flushIfFull:
  "flushIfFull caps cfg p = Some p' \<Longrightarrow> balanced (report p) \<Longrightarrow> balanced (report p')"
  by (auto simp: flushIfFull_def split: if_splits dest: balanced_commit)

lemma balanced_flushRemaining:
  "flushRemaining caps cfg p = Some p' \<Longrightarrow> balanced (report p) \<Longrightarrow> balanced (report p')"
  by (auto simp: flushRemaining_def split: if_splits dest: balanced_commit)

lemma balanced_run_records:
  "balanced (report p) \<Longrightarrow> balanced (report (fst (run_records caps cfg cb cancelled xs p)))"
proof (induction xs arbitrary: p)
  case Nil
  then show ?case
    by (auto split: option.splits dest: balanced_flushRemaining)
next
  case (Cons x xs)
  show ?case
  proof (cases "cancelled (scanned (report p))")
    case True
    with Cons.prems show ?thesis
      by (auto split: option.splits dest!: balanced_flushRemaining simp: balanced_def)
  next
    case False
    show ?thesis
    proof (cases x)
      case IOError
      with False Cons.prems show ?thesis by simp
    next
      case (Record k v)
      have b1: "balanced (report (visit cfg cb k v p))"
        by (rule balanced_visit[OF Cons.prems])
      show ?thesis
      proof (cases "flushIfFull caps cfg (visit cfg cb k v p)")
        case None
        with False Record b1 show ?thesis
          by (simp add: Let_def)
      next
        case (Some p2)
        from balanced_flushIfFull[OF Some b1] have "balanced (report p2)" .
        from Cons.IH[OF this] False Record Some show ?thesis
          by (simp add: Let_def)
      qed
    qed
  qed
qed

text \<open>
  C5. The report a job returns satisfies
  \<open>scanned = skipped + transformed + failed + unchanged\<close>: every scanned record got
  exactly one Decision. It holds of every job, also one that was cancelled or aborted.
\<close>

theorem job_report_counters_add_up:
  fixes s :: 'st and cb :: "'e callbacks"
  shows "scanned (report (fst (run_job caps cfg cb cancelled s)))
     = skipped (report (fst (run_job caps cfg cb cancelled s)))
       + transformed (report (fst (run_job caps cfg cb cancelled s)))
       + failed (report (fst (run_job caps cfg cb cancelled s)))
       + unchanged (report (fst (run_job caps cfg cb cancelled s)))"
proof -
  have init: "balanced (report (new_pipeline s :: ('st, 'e) pipeline))"
    by (simp add: balanced_def new_pipeline_def new_report_def)
  have "balanced (report (fst (run_job caps cfg cb cancelled s)))"
  proof (cases "openSnapshotScan caps s (columnFamily cfg) (keyRangeOrPrefix cfg)")
    case None
    with init show ?thesis
      by (simp add: run_job_def)
  next
    case (Some steps)
    with balanced_run_records[OF init, of caps cfg cb cancelled steps] show ?thesis
      by (simp add: run_job_def)
  qed
  then show ?thesis
    by (simp add: balanced_def)
qed

subsection \<open>Dry run against real run\<close>

lemma same_decisions_scanned:
  "same_decisions p q \<Longrightarrow> scanned (report p) = scanned (report q)"
  by (simp add: same_decisions_def)

lemma same_decisions_trans:
  "same_decisions p q \<Longrightarrow> same_decisions q r \<Longrightarrow> same_decisions p r"
  by (simp add: same_decisions_def)

lemma count_decision_dryRun [simp]:
  "count_decision (cfg\<lparr>dryRun := b\<rparr>) k d r = count_decision cfg k d r"
  by (cases d) (simp_all add: collect_error_def)

lemma count_decision_fields:
  assumes "scanned r = scanned r'" "skipped r = skipped r'" "transformed r = transformed r'"
    "failed r = failed r'" "unchanged r = unchanged r'" "failures r = failures r'"
    "incomplete r = incomplete r'"
  shows "scanned (count_decision cfg k d r) = scanned (count_decision cfg k d r') \<and>
         skipped (count_decision cfg k d r) = skipped (count_decision cfg k d r') \<and>
         transformed (count_decision cfg k d r) = transformed (count_decision cfg k d r') \<and>
         failed (count_decision cfg k d r) = failed (count_decision cfg k d r') \<and>
         unchanged (count_decision cfg k d r) = unchanged (count_decision cfg k d r') \<and>
         failures (count_decision cfg k d r) = failures (count_decision cfg k d r') \<and>
         incomplete (count_decision cfg k d r) = incomplete (count_decision cfg k d r')"
  using assms by (cases d) (auto simp: collect_error_def split: option.splits)

text \<open>The two modes take the same Decision on a record and count it alike.\<close>

lemma same_decisions_visit:
  "same_decisions p q \<Longrightarrow>
   same_decisions (visit (cfg\<lparr>dryRun := False\<rparr>) cb k v p)
                  (visit (cfg\<lparr>dryRun := True\<rparr>) cb k v q)"
  using count_decision_fields[of "report p" "report q" cfg k "decide cb k v"]
  by (simp add: same_decisions_def visit_def Let_def)

lemma decisions_visit:
  "decisions (visit cfg cb k v p) = decisions p @ [(k, decision_of (decide cb k v))]"
  by (simp add: visit_def Let_def)

text \<open>A dry run stages nothing, so it never commits.\<close>

lemma buffer_visit_dry:
  "buffer p = [] \<Longrightarrow> buffer (visit (cfg\<lparr>dryRun := True\<rparr>) cb k v p) = []"
  by (simp add: visit_def Let_def stage_def split: verdict.splits)

lemma flush_empty [simp]:
  "buffer p = [] \<Longrightarrow> flushIfFull caps cfg p = Some p"
  "buffer p = [] \<Longrightarrow> flushRemaining caps cfg p = Some p"
  by (simp_all add: flushIfFull_def flushRemaining_def)

text \<open>A commit changes the store, the buffer and \<open>written\<close> only.\<close>

lemma same_decisions_commit:
  "commit_buffer caps cfg p = Some p' \<Longrightarrow> same_decisions p' p"
  by (auto simp: commit_buffer_def same_decisions_def split: option.splits)

lemma same_decisions_flushIfFull:
  "flushIfFull caps cfg p = Some p' \<Longrightarrow> same_decisions p' p"
  by (auto simp: flushIfFull_def same_decisions_def split: if_splits
      dest: same_decisions_commit)

lemma same_decisions_flushRemaining:
  "flushRemaining caps cfg p = Some p' \<Longrightarrow> same_decisions p' p"
  by (auto simp: flushRemaining_def same_decisions_def split: if_splits
      dest: same_decisions_commit)

lemma decisions_grow_dry:
  "buffer p = [] \<Longrightarrow>
   \<exists>rest. decisions (fst (run_records caps (cfg\<lparr>dryRun := True\<rparr>) cb cancelled xs p))
            = decisions p @ rest"
proof (induction xs arbitrary: p)
  case Nil
  then show ?case by simp
next
  case (Cons x xs)
  show ?case
  proof (cases "cancelled (scanned (report p))")
    case True
    with Cons.prems show ?thesis by simp
  next
    case False
    show ?thesis
    proof (cases x)
      case IOError
      with False show ?thesis by simp
    next
      case (Record k v)
      let ?p1 = "visit (cfg\<lparr>dryRun := True\<rparr>) cb k v p"
      have b: "buffer ?p1 = []"
        by (rule buffer_visit_dry[OF Cons.prems])
      from Cons.IH[OF b] obtain rest where
        "decisions (fst (run_records caps (cfg\<lparr>dryRun := True\<rparr>) cb cancelled xs ?p1))
           = decisions ?p1 @ rest"
        by blast
      with False Record b show ?thesis
        by (simp add: Let_def decisions_visit)
    qed
  qed
qed

lemma run_records_modes:
  assumes "same_decisions pr pd" and "buffer pd = []"
  shows "(\<exists>rest. decisions (fst (run_records caps (cfg\<lparr>dryRun := True\<rparr>) cb cancelled xs pd))
            = decisions (fst (run_records caps (cfg\<lparr>dryRun := False\<rparr>) cb cancelled xs pr))
              @ rest) \<and>
         (snd (run_records caps (cfg\<lparr>dryRun := False\<rparr>) cb cancelled xs pr)
            \<noteq> Some BatchCommitError \<longrightarrow>
            same_decisions (fst (run_records caps (cfg\<lparr>dryRun := False\<rparr>) cb cancelled xs pr))
                           (fst (run_records caps (cfg\<lparr>dryRun := True\<rparr>) cb cancelled xs pd)) \<and>
            snd (run_records caps (cfg\<lparr>dryRun := False\<rparr>) cb cancelled xs pr)
              = snd (run_records caps (cfg\<lparr>dryRun := True\<rparr>) cb cancelled xs pd))"
  using assms
proof (induction xs arbitrary: pr pd)
  case Nil
  show ?case
  proof (cases "flushRemaining caps (cfg\<lparr>dryRun := False\<rparr>) pr")
    case None
    with Nil show ?thesis
      by (simp add: same_decisions_def)
  next
    case (Some p')
    from same_decisions_flushRemaining[OF Some] Nil.prems(1) have "same_decisions p' pd"
      by (rule same_decisions_trans)
    with Some Nil.prems(2) show ?thesis
      by (simp add: same_decisions_def)
  qed
next
  case (Cons x xs)
  note sc = same_decisions_scanned[OF Cons.prems(1)]
  show ?case
  proof (cases "cancelled (scanned (report pd))")
    case True
    show ?thesis
    proof (cases "flushRemaining caps (cfg\<lparr>dryRun := False\<rparr>) pr")
      case None
      with True sc Cons.prems show ?thesis
        by (simp add: same_decisions_def)
    next
      case (Some p')
      from same_decisions_flushRemaining[OF Some] Cons.prems(1) have "same_decisions p' pd"
        by (rule same_decisions_trans)
      with Some True sc Cons.prems(2) show ?thesis
        by (simp add: same_decisions_def)
    qed
  next
    case False
    show ?thesis
    proof (cases x)
      case IOError
      with False sc Cons.prems show ?thesis
        by (simp add: same_decisions_def)
    next
      case (Record k v)
      let ?r1 = "visit (cfg\<lparr>dryRun := False\<rparr>) cb k v pr"
      let ?d1 = "visit (cfg\<lparr>dryRun := True\<rparr>) cb k v pd"
      have s1: "same_decisions ?r1 ?d1"
        by (rule same_decisions_visit[OF Cons.prems(1)])
      have b1: "buffer ?d1 = []"
        by (rule buffer_visit_dry[OF Cons.prems(2)])
      show ?thesis
      proof (cases "flushIfFull caps (cfg\<lparr>dryRun := False\<rparr>) ?r1")
        case None
        from decisions_grow_dry[OF b1] obtain rest where
          "decisions (fst (run_records caps (cfg\<lparr>dryRun := True\<rparr>) cb cancelled xs ?d1))
             = decisions ?d1 @ rest"
          by blast
        moreover have "decisions ?r1 = decisions ?d1"
          using s1 by (simp add: same_decisions_def)
        ultimately show ?thesis
          using None False sc Record b1 by (simp add: Let_def)
      next
        case (Some r2)
        from same_decisions_flushIfFull[OF Some] s1 have "same_decisions r2 ?d1"
          by (rule same_decisions_trans)
        from Cons.IH[OF this b1] Some False sc Record b1 show ?thesis
          by (simp add: Let_def)
      qed
    qed
  qed
qed

text \<open>The terminal action: a dry run writes nothing, a real run reports nothing.\<close>

lemma written_count [simp]: "written (count_decision cfg k d r) = written r"
  by (cases d) (simp_all add: collect_error_def)

lemma visit_dry_frame:
  "store (visit (cfg\<lparr>dryRun := True\<rparr>) cb k v p) = store p \<and>
   written (report (visit (cfg\<lparr>dryRun := True\<rparr>) cb k v p)) = written (report p)"
  by (cases "decide cb k v") (simp_all add: visit_def Let_def stage_def collect_error_def)

lemma dry_run_records_frame:
  "buffer p = [] \<Longrightarrow>
   store (fst (run_records caps (cfg\<lparr>dryRun := True\<rparr>) cb cancelled xs p)) = store p \<and>
   written (report (fst (run_records caps (cfg\<lparr>dryRun := True\<rparr>) cb cancelled xs p)))
     = written (report p)"
proof (induction xs arbitrary: p)
  case Nil
  then show ?case by simp
next
  case (Cons x xs)
  show ?case
  proof (cases "cancelled (scanned (report p))")
    case True
    with Cons.prems show ?thesis by simp
  next
    case False
    show ?thesis
    proof (cases x)
      case IOError
      with False show ?thesis by simp
    next
      case (Record k v)
      let ?p1 = "visit (cfg\<lparr>dryRun := True\<rparr>) cb k v p"
      have b: "buffer ?p1 = []"
        by (rule buffer_visit_dry[OF Cons.prems])
      from Cons.IH[OF b] visit_dry_frame[of cfg cb k v p] False Record b show ?thesis
        by (simp add: Let_def)
    qed
  qed
qed

lemma dry_report_visit_real:
  "dry_report (visit (cfg\<lparr>dryRun := False\<rparr>) cb k v p) = dry_report p"
  by (simp add: visit_def Let_def stage_def split: verdict.splits)

lemma dry_report_commit: "commit_buffer caps cfg p = Some p' \<Longrightarrow> dry_report p' = dry_report p"
  by (auto simp: commit_buffer_def split: option.splits)

lemma dry_report_flushIfFull: "flushIfFull caps cfg p = Some p' \<Longrightarrow> dry_report p' = dry_report p"
  by (auto simp: flushIfFull_def split: if_splits dest: dry_report_commit)

lemma dry_report_flushRemaining: "flushRemaining caps cfg p = Some p' \<Longrightarrow> dry_report p' = dry_report p"
  by (auto simp: flushRemaining_def split: if_splits dest: dry_report_commit)

lemma real_run_records_reports_nothing:
  "dry_report (fst (run_records caps (cfg\<lparr>dryRun := False\<rparr>) cb cancelled xs p)) = dry_report p"
proof (induction xs arbitrary: p)
  case Nil
  then show ?case by (auto split: option.splits dest: dry_report_flushRemaining)
next
  case (Cons x xs)
  show ?case
  proof (cases "cancelled (scanned (report p))")
    case True
    then show ?thesis by (auto split: option.splits dest: dry_report_flushRemaining)
  next
    case False
    show ?thesis
    proof (cases x)
      case IOError
      with False show ?thesis by simp
    next
      case (Record k v)
      show ?thesis
      proof (cases "flushIfFull caps (cfg\<lparr>dryRun := False\<rparr>) (visit (cfg\<lparr>dryRun := False\<rparr>) cb k v p)")
        case None
        with False Record show ?thesis by (simp add: Let_def dry_report_visit_real)
      next
        case (Some p2)
        with Cons.IH[of p2] dry_report_flushIfFull[OF Some] False Record show ?thesis
          by (simp add: Let_def dry_report_visit_real)
      qed
    qed
  qed
qed

lemma modes_terminal_action:
  fixes s :: 'st and cb :: "'e callbacks"
  shows "store (fst (dry_run caps cfg cb cancelled s)) = s \<and>
   written (report (fst (dry_run caps cfg cb cancelled s))) = 0 \<and>
   dry_report (fst (real_run caps cfg cb cancelled s)) = []"
proof (cases "openSnapshotScan caps s (columnFamily cfg) (keyRangeOrPrefix cfg)")
  case None
  then show ?thesis
    by (simp add: real_run_def dry_run_def run_job_def new_pipeline_def new_report_def)
next
  case (Some steps)
  have "buffer (new_pipeline s :: ('st, 'e) pipeline) = []"
    by (simp add: new_pipeline_def)
  from dry_run_records_frame[OF this, of caps cfg cb cancelled steps]
    real_run_records_reports_nothing[of caps cfg cb cancelled steps "new_pipeline s"] Some
  show ?thesis
    by (simp add: real_run_def dry_run_def run_job_def new_pipeline_def new_report_def)
qed

lemma modes_decisions:
  fixes s :: 'st and cb :: "'e callbacks"
  shows "(\<exists>rest. decisions (fst (dry_run caps cfg cb cancelled s))
            = decisions (fst (real_run caps cfg cb cancelled s)) @ rest) \<and>
   (snd (real_run caps cfg cb cancelled s) \<noteq> Some BatchCommitError \<longrightarrow>
      decisions (fst (real_run caps cfg cb cancelled s))
        = decisions (fst (dry_run caps cfg cb cancelled s)) \<and>
      failures (report (fst (real_run caps cfg cb cancelled s)))
        = failures (report (fst (dry_run caps cfg cb cancelled s))) \<and>
      snd (real_run caps cfg cb cancelled s) = snd (dry_run caps cfg cb cancelled s)) \<and>
   store (fst (dry_run caps cfg cb cancelled s)) = s \<and>
   written (report (fst (dry_run caps cfg cb cancelled s))) = 0 \<and>
   dry_report (fst (real_run caps cfg cb cancelled s)) = []"
proof (cases "openSnapshotScan caps s (columnFamily cfg) (keyRangeOrPrefix cfg)")
  case None
  then show ?thesis
    using modes_terminal_action[of caps cfg cb cancelled s]
    by (simp add: real_run_def dry_run_def run_job_def)
next
  case (Some steps)
  have "same_decisions (new_pipeline s :: ('st, 'e) pipeline) (new_pipeline s)"
    by (simp add: same_decisions_def)
  moreover have "buffer (new_pipeline s :: ('st, 'e) pipeline) = []"
    by (simp add: new_pipeline_def)
  ultimately show ?thesis
    using run_records_modes[of "new_pipeline s" "new_pipeline s" caps cfg cb cancelled steps] Some
      modes_terminal_action[of caps cfg cb cancelled s]
    by (auto simp: real_run_def dry_run_def run_job_def same_decisions_def)
qed

text \<open>The writes of the real run are the writes the dry run reports.\<close>

lemma commit_all_snoc:
  "commit_all caps cf s (B @ [b]) =
     (case commit_all caps cf s B of None \<Rightarrow> None | Some s' \<Rightarrow> commitBatch caps s' cf b)"
  by (induction B arbitrary: s) (auto split: option.splits)

lemma new_values_append [simp]: "new_values (xs @ ys) = new_values xs @ new_values ys"
  by (simp add: new_values_def)

lemma visit_real_frame:
  "store (visit (cfg\<lparr>dryRun := False\<rparr>) cb k v p) = store p \<and>
   written (report (visit (cfg\<lparr>dryRun := False\<rparr>) cb k v p)) = written (report p)"
  by (cases "decide cb k v") (simp_all add: visit_def Let_def stage_def collect_error_def)

lemma visit_staged:
  "\<exists>w. buffer (visit (cfg\<lparr>dryRun := False\<rparr>) cb k v pr) = buffer pr @ w \<and>
       new_values (dry_report (visit (cfg\<lparr>dryRun := True\<rparr>) cb k v pd))
         = new_values (dry_report pd) @ w"
  by (cases "decide cb k v") (simp_all add: visit_def Let_def stage_def new_values_def)

lemma writes_match_visit:
  assumes "writes_match caps cf s0 pr (new_values (dry_report pd))"
  shows "writes_match caps cf s0 (visit (cfg\<lparr>dryRun := False\<rparr>) cb k v pr)
           (new_values (dry_report (visit (cfg\<lparr>dryRun := True\<rparr>) cb k v pd)))"
proof -
  from visit_staged[of cfg cb k v pr pd] obtain w where
    "buffer (visit (cfg\<lparr>dryRun := False\<rparr>) cb k v pr) = buffer pr @ w"
    "new_values (dry_report (visit (cfg\<lparr>dryRun := True\<rparr>) cb k v pd))
       = new_values (dry_report pd) @ w"
    by blast
  with assms visit_real_frame[of cfg cb k v pr] show ?thesis
    by (auto simp: writes_match_def)
qed

lemma writes_match_commit:
  assumes "commit_buffer caps cfg p = Some p'" and "writes_match caps (columnFamily cfg) s0 p ws"
  shows "writes_match caps (columnFamily cfg) s0 p' ws \<and> buffer p' = []"
proof -
  from assms(2) obtain B where B: "commit_all caps (columnFamily cfg) s0 B = Some (store p)"
    "concat B @ buffer p = ws" "written (report p) = length (concat B)"
    by (auto simp: writes_match_def)
  from assms(1) obtain s' where s': "commitBatch caps (store p) (columnFamily cfg) (buffer p) = Some s'"
    and p': "p' = p\<lparr>store := s', buffer := [],
                  report := (report p)\<lparr>written := written (report p) + length (buffer p)\<rparr>\<rparr>"
    by (auto simp: commit_buffer_def split: option.splits)
  have "commit_all caps (columnFamily cfg) s0 (B @ [buffer p]) = Some (store p')"
    using B(1) s' p' by (simp add: commit_all_snoc)
  moreover have "concat (B @ [buffer p]) @ buffer p' = ws"
    using B(2) p' by simp
  moreover have "written (report p') = length (concat (B @ [buffer p]))"
    using B(3) p' by simp
  ultimately have "writes_match caps (columnFamily cfg) s0 p' ws"
    unfolding writes_match_def by blast
  moreover have "buffer p' = []"
    using p' by simp
  ultimately show ?thesis
    by simp
qed

lemma writes_match_flushIfFull:
  "flushIfFull caps cfg p = Some p' \<Longrightarrow> writes_match caps (columnFamily cfg) s0 p ws \<Longrightarrow>
   writes_match caps (columnFamily cfg) s0 p' ws"
  by (auto simp: flushIfFull_def split: if_splits dest: writes_match_commit)

lemma writes_match_flushRemaining:
  "flushRemaining caps cfg p = Some p' \<Longrightarrow> writes_match caps (columnFamily cfg) s0 p ws \<Longrightarrow>
   writes_match caps (columnFamily cfg) s0 p' ws \<and> buffer p' = []"
  by (auto simp: flushRemaining_def split: if_splits dest: writes_match_commit)

lemma writes_match_incomplete:
  "writes_match caps cf s0 (p\<lparr>report := (report p)\<lparr>incomplete := True\<rparr>\<rparr>) ws
    = writes_match caps cf s0 p ws"
  by (simp add: writes_match_def)

lemma run_records_writes:
  assumes "same_decisions pr pd" and "buffer pd = []"
    and "writes_match caps (columnFamily cfg) s0 pr (new_values (dry_report pd))"
  shows "snd (run_records caps (cfg\<lparr>dryRun := False\<rparr>) cb cancelled xs pr)
            \<noteq> Some BatchCommitError \<longrightarrow>
         writes_match caps (columnFamily cfg) s0
           (fst (run_records caps (cfg\<lparr>dryRun := False\<rparr>) cb cancelled xs pr))
           (new_values (dry_report
              (fst (run_records caps (cfg\<lparr>dryRun := True\<rparr>) cb cancelled xs pd)))) \<and>
         (snd (run_records caps (cfg\<lparr>dryRun := False\<rparr>) cb cancelled xs pr)
            \<noteq> Some ScanIOError \<longrightarrow>
            buffer (fst (run_records caps (cfg\<lparr>dryRun := False\<rparr>) cb cancelled xs pr)) = [])"
  using assms
proof (induction xs arbitrary: pr pd)
  case Nil
  show ?case
  proof (cases "flushRemaining caps (cfg\<lparr>dryRun := False\<rparr>) pr")
    case None
    then show ?thesis by simp
  next
    case (Some p')
    from writes_match_flushRemaining[OF Some, of s0] Nil.prems(3)
    have "writes_match caps (columnFamily cfg) s0 p' (new_values (dry_report pd)) \<and> buffer p' = []"
      by simp
    with Some Nil.prems(2) show ?thesis by simp
  qed
next
  case (Cons x xs)
  note sc = same_decisions_scanned[OF Cons.prems(1)]
  show ?case
  proof (cases "cancelled (scanned (report pd))")
    case True
    show ?thesis
    proof (cases "flushRemaining caps (cfg\<lparr>dryRun := False\<rparr>) pr")
      case None
      with True sc show ?thesis by simp
    next
      case (Some p')
      from writes_match_flushRemaining[OF Some, of s0] Cons.prems(3)
      have "writes_match caps (columnFamily cfg) s0 p' (new_values (dry_report pd)) \<and> buffer p' = []"
        by simp
      with Some True sc Cons.prems(2) show ?thesis
        by (simp add: writes_match_incomplete)
    qed
  next
    case False
    show ?thesis
    proof (cases x)
      case IOError
      with False sc Cons.prems show ?thesis by simp
    next
      case (Record k v)
      let ?r1 = "visit (cfg\<lparr>dryRun := False\<rparr>) cb k v pr"
      let ?d1 = "visit (cfg\<lparr>dryRun := True\<rparr>) cb k v pd"
      have s1: "same_decisions ?r1 ?d1"
        by (rule same_decisions_visit[OF Cons.prems(1)])
      have b1: "buffer ?d1 = []"
        by (rule buffer_visit_dry[OF Cons.prems(2)])
      have w1: "writes_match caps (columnFamily cfg) s0 ?r1 (new_values (dry_report ?d1))"
        by (rule writes_match_visit[OF Cons.prems(3)])
      show ?thesis
      proof (cases "flushIfFull caps (cfg\<lparr>dryRun := False\<rparr>) ?r1")
        case None
        with False sc Record show ?thesis by (simp add: Let_def)
      next
        case (Some r2)
        from same_decisions_flushIfFull[OF Some] s1 have s2: "same_decisions r2 ?d1"
          by (rule same_decisions_trans)
        from writes_match_flushIfFull[OF Some, of s0] w1
        have w2: "writes_match caps (columnFamily cfg) s0 r2 (new_values (dry_report ?d1))"
          by simp
        from Cons.IH[OF s2 b1 w2] Some False sc Record b1 show ?thesis
          by (simp add: Let_def)
      qed
    qed
  qed
qed

lemma run_job_writes:
  fixes s :: 'st and cb :: "'e callbacks"
  assumes "snd (real_run caps cfg cb cancelled s) \<noteq> Some BatchCommitError"
  shows "writes_match caps (columnFamily cfg) s (fst (real_run caps cfg cb cancelled s))
           (new_values (dry_report (fst (dry_run caps cfg cb cancelled s)))) \<and>
         (snd (real_run caps cfg cb cancelled s) \<noteq> Some ScanIOError \<longrightarrow>
            buffer (fst (real_run caps cfg cb cancelled s)) = [])"
proof (cases "openSnapshotScan caps s (columnFamily cfg) (keyRangeOrPrefix cfg)")
  case None
  have "commit_all caps (columnFamily cfg) s [] = Some s" by simp
  then have "writes_match caps (columnFamily cfg) s (new_pipeline s :: ('st, 'e) pipeline) []"
    unfolding writes_match_def
    by (intro exI[of _ "[]"]) (simp add: new_pipeline_def new_report_def)
  with None show ?thesis
    by (simp add: real_run_def dry_run_def run_job_def new_values_def)
      (simp add: new_pipeline_def)
next
  case (Some steps)
  have sd: "same_decisions (new_pipeline s :: ('st, 'e) pipeline) (new_pipeline s)"
    by (simp add: same_decisions_def)
  have b: "buffer (new_pipeline s :: ('st, 'e) pipeline) = []"
    by (simp add: new_pipeline_def)
  have "commit_all caps (columnFamily cfg) s [] = Some s" by simp
  then have w: "writes_match caps (columnFamily cfg) s (new_pipeline s :: ('st, 'e) pipeline)
      (new_values (dry_report (new_pipeline s :: ('st, 'e) pipeline)))"
    unfolding writes_match_def
    by (intro exI[of _ "[]"]) (simp add: new_pipeline_def new_report_def new_values_def)
  from run_records_writes[OF sd b w, of cb cancelled steps] assms Some show ?thesis
    by (simp add: real_run_def dry_run_def run_job_def)
qed


text \<open>
  C6, amended. A job run in dry-run mode and in real mode on the same store, with the
  same callbacks and the same cancellation signal. The Decisions of the real run are, key
  by key and in order, the Decisions the dry run takes on the same keys: the real run's
  sequence is a prefix of the dry run's. Unless a failed batch commit aborts the real run,
  the two sequences are equal, with the same recorded failures and the same end of job,
  and the modes differ in the terminal action only: the writes the dry run reports are,
  in order, the batches the real run has committed to the store followed by what is left
  in its buffer, which is empty unless a scan I/O error ended the job; \<open>written\<close> counts
  the committed ones. The dry run leaves the store as it was and writes nothing; the real
  run records no dry-run entry.
\<close>

theorem dry_run_decision_equivalent:
  fixes s :: 'st and cb :: "'e callbacks"
  shows "(\<exists>rest. decisions (fst (dry_run caps cfg cb cancelled s))
            = decisions (fst (real_run caps cfg cb cancelled s)) @ rest) \<and>
   (snd (real_run caps cfg cb cancelled s) \<noteq> Some BatchCommitError \<longrightarrow>
      decisions (fst (real_run caps cfg cb cancelled s))
        = decisions (fst (dry_run caps cfg cb cancelled s)) \<and>
      failures (report (fst (real_run caps cfg cb cancelled s)))
        = failures (report (fst (dry_run caps cfg cb cancelled s))) \<and>
      snd (real_run caps cfg cb cancelled s) = snd (dry_run caps cfg cb cancelled s) \<and>
      (\<exists>batches.
         commit_all caps (columnFamily cfg) s batches
           = Some (store (fst (real_run caps cfg cb cancelled s))) \<and>
         concat batches @ buffer (fst (real_run caps cfg cb cancelled s))
           = new_values (dry_report (fst (dry_run caps cfg cb cancelled s))) \<and>
         written (report (fst (real_run caps cfg cb cancelled s))) = length (concat batches)) \<and>
      (snd (real_run caps cfg cb cancelled s) \<noteq> Some ScanIOError \<longrightarrow>
         buffer (fst (real_run caps cfg cb cancelled s)) = [])) \<and>
   store (fst (dry_run caps cfg cb cancelled s)) = s \<and>
   written (report (fst (dry_run caps cfg cb cancelled s))) = 0 \<and>
   dry_report (fst (real_run caps cfg cb cancelled s)) = []"
  using modes_decisions[of caps cfg cb cancelled s]
    run_job_writes[of caps cfg cb cancelled s]
  unfolding writes_match_def by blast

subsection \<open>A job over three users\<close>

lemma sample_loads_age20:
  "json_loads sample_lib ''{\"age\": 20}'' = Inr (JDict [(''age'', JInt 20)])"
  by (simp add: sample_lib_def sample_loads_def sample_docs_def)

lemma decide_u1: "decide (filter_by_age_callbacks sample_lib) ''u1'' ''{\"age\": 20}'' = Skip"
  by (simp add: decide_def accepts_def filter_by_age_callbacks_def should_process_age
      age_exceeds_30_def sample_loads_age20)

lemma decide_u2:
  "decide (filter_by_age_callbacks sample_lib) ''u2'' ''{\"age\": 31}''
    = Change ''{\"age\": 31, \"age_group\": \"middle\"}''"
  by (simp add: decide_def accepts_def filter_by_age_callbacks_def should_process_age
      age_exceeds_30_def sample_loads_age31 filter_by_age_transform_value_def py_bind_def
      try_except_def sample_dumps_age31_middle)

lemma decide_u3: "decide (filter_by_age_callbacks sample_lib) ''u3'' ''not json'' = Skip"
  by (simp add: decide_def accepts_def filter_by_age_callbacks_def should_process_age
      age_exceeds_30_def sample_loads_not_json)

lemma users_scan:
  "openSnapshotScan mem_store users ''users'' (Prefix ''u'')
     = Some [Record ''u1'' ''{\"age\": 20}'', Record ''u2'' ''{\"age\": 31}'',
             Record ''u3'' ''not json'']"
  by (simp add: mem_store_def users_def)

lemma real_users:
  "real_run mem_store users_job (filter_by_age_callbacks sample_lib) (\<lambda>n. False) users
   = (\<lparr>report = \<lparr>scanned = 3, skipped = 2, transformed = 1, failed = 0, unchanged = 0,
                  written = 1, failures = [], incomplete = False\<rparr>,
       decisions = [(''u1'', Skipped), (''u2'', Transformed), (''u3'', Skipped)],
       buffer = [], dry_report = [],
       store = [(''u1'', ''{\"age\": 20}''),
                (''u2'', ''{\"age\": 31, \"age_group\": \"middle\"}''),
                (''u3'', ''not json'')]\<rparr>, None)"
  by (simp add: real_run_def run_job_def users_job_def users_scan visit_def decide_u1
      decide_u2 decide_u3 new_pipeline_def new_report_def stage_def flushIfFull_def
      flushRemaining_def batch_full_def commit_buffer_def mem_store_def users_def)

lemma dry_users:
  "dry_run mem_store users_job (filter_by_age_callbacks sample_lib) (\<lambda>n. False) users
   = (\<lparr>report = \<lparr>scanned = 3, skipped = 2, transformed = 1, failed = 0, unchanged = 0,
                  written = 0, failures = [], incomplete = False\<rparr>,
       decisions = [(''u1'', Skipped), (''u2'', Transformed), (''u3'', Skipped)],
       buffer = [],
       dry_report = [(''u2'', ''{\"age\": 31}'', ''{\"age\": 31, \"age_group\": \"middle\"}'')],
       store = users\<rparr>, None)"
  by (simp add: dry_run_def run_job_def users_job_def users_scan visit_def decide_u1 decide_u2
      decide_u3 new_pipeline_def new_report_def stage_def flushIfFull_def flushRemaining_def
      batch_full_def commit_buffer_def)

theorem dry_run_decision_equivalent_witness:
  "snd (real_run mem_store users_job (filter_by_age_callbacks sample_lib) (\<lambda>n. False) users)
     = None \<and>
   decisions (fst (real_run mem_store users_job (filter_by_age_callbacks sample_lib)
                     (\<lambda>n. False) users))
     = [(''u1'', Skipped), (''u2'', Transformed), (''u3'', Skipped)] \<and>
   decisions (fst (dry_run mem_store users_job (filter_by_age_callbacks sample_lib)
                     (\<lambda>n. False) users))
     = [(''u1'', Skipped), (''u2'', Transformed), (''u3'', Skipped)] \<and>
   new_values (dry_report (fst (dry_run mem_store users_job
                     (filter_by_age_callbacks sample_lib) (\<lambda>n. False) users)))
     = [(''u2'', ''{\"age\": 31, \"age_group\": \"middle\"}'')] \<and>
   written (report (fst (real_run mem_store users_job (filter_by_age_callbacks sample_lib)
                     (\<lambda>n. False) users))) = 1"
  using dry_run_decision_equivalent[of mem_store users_job "filter_by_age_callbacks sample_lib" "\<lambda>n. False" users]
  by (simp add: real_users dry_users new_values_def)


lemma failing_scan:
  "openSnapshotScan failing_store users ''users'' (Prefix ''u'')
     = Some [Record ''u1'' ''{\"age\": 20}'', Record ''u2'' ''{\"age\": 31}'',
             Record ''u3'' ''not json'']"
  by (simp add: failing_store_def mem_store_def users_def)

lemma real_failing:
  "real_run failing_store users_job_batch1 (filter_by_age_callbacks sample_lib) (\<lambda>n. False) users
   = (\<lparr>report = \<lparr>scanned = 2, skipped = 1, transformed = 1, failed = 0, unchanged = 0,
                  written = 0, failures = [], incomplete = False\<rparr>,
       decisions = [(''u1'', Skipped), (''u2'', Transformed)],
       buffer = [(''u2'', ''{\"age\": 31, \"age_group\": \"middle\"}'')], dry_report = [],
       store = users\<rparr>, Some BatchCommitError)"
  by (simp add: real_run_def run_job_def users_job_batch1_def users_job_def failing_scan visit_def
      decide_u1 decide_u2 decide_u3 new_pipeline_def new_report_def stage_def flushIfFull_def
      flushRemaining_def batch_full_def commit_buffer_def)
     (simp add: failing_store_def mem_store_def)

lemma dry_failing:
  "dry_run failing_store users_job_batch1 (filter_by_age_callbacks sample_lib) (\<lambda>n. False) users
   = (\<lparr>report = \<lparr>scanned = 3, skipped = 2, transformed = 1, failed = 0, unchanged = 0,
                  written = 0, failures = [], incomplete = False\<rparr>,
       decisions = [(''u1'', Skipped), (''u2'', Transformed), (''u3'', Skipped)],
       buffer = [],
       dry_report = [(''u2'', ''{\"age\": 31}'', ''{\"age\": 31, \"age_group\": \"middle\"}'')],
       store = users\<rparr>, None)"
  by (simp add: dry_run_def run_job_def users_job_batch1_def users_job_def failing_scan visit_def
      decide_u1 decide_u2 decide_u3 new_pipeline_def new_report_def stage_def flushIfFull_def
      flushRemaining_def batch_full_def commit_buffer_def)

text \<open>
  C6, as stated, fails when a batch commit fails: the real run is aborted after the
  second record, the dry run decides all three.
\<close>

theorem real_run_aborted_by_failed_commit:
  "snd (real_run failing_store users_job_batch1 (filter_by_age_callbacks sample_lib)
          (\<lambda>n. False) users) = Some BatchCommitError \<and>
   decisions (fst (real_run failing_store users_job_batch1 (filter_by_age_callbacks sample_lib)
                     (\<lambda>n. False) users))
     = [(''u1'', Skipped), (''u2'', Transformed)] \<and>
   decisions (fst (dry_run failing_store users_job_batch1 (filter_by_age_callbacks sample_lib)
                     (\<lambda>n. False) users))
     = [(''u1'', Skipped), (''u2'', Transformed), (''u3'', Skipped)] \<and>
   decisions (fst (real_run failing_store users_job_batch1 (filter_by_age_callbacks sample_lib)
                     (\<lambda>n. False) users))
     \<noteq> decisions (fst (dry_run failing_store users_job_batch1
                           (filter_by_age_callbacks sample_lib) (\<lambda>n. False) users))"
  by (simp add: real_failing dry_failing)

subsection \<open>A job with the callbacks of filter\_by\_age.py\<close>

lemma decide_never_fails:
  assumes "\<And>k v. \<exists>b. accepts cb k v = Inr b" and "\<And>k v. \<exists>s. transform cb k v = Inr s"
  shows "\<forall>e. decide cb k v \<noteq> Fail e"
proof -
  from assms(1) obtain b where "accepts cb k v = Inr b"
    by blast
  moreover from assms(2) obtain s where "transform cb k v = Inr s"
    by blast
  ultimately show ?thesis
    by (simp add: decide_def)
qed

lemma no_failures_commit:
  "commit_buffer caps cfg p = Some p' \<Longrightarrow> no_failures p \<Longrightarrow> no_failures p'"
  by (auto simp: commit_buffer_def no_failures_def split: option.splits)

lemma no_failures_flushIfFull:
  "flushIfFull caps cfg p = Some p' \<Longrightarrow> no_failures p \<Longrightarrow> no_failures p'"
  by (auto simp: flushIfFull_def split: if_splits dest: no_failures_commit)

lemma no_failures_flushRemaining:
  "flushRemaining caps cfg p = Some p' \<Longrightarrow> no_failures p \<Longrightarrow> no_failures p'"
  by (auto simp: flushRemaining_def split: if_splits dest: no_failures_commit)

lemma no_failures_visit:
  assumes "\<forall>e. decide cb k v \<noteq> Fail e" and "no_failures p"
  shows "no_failures (visit cfg cb k v p)"
  using assms by (cases "decide cb k v") (simp_all add: visit_def no_failures_def)

lemma no_failures_run_records:
  assumes nf: "\<And>k v e. decide cb k v \<noteq> Fail e"
  shows "no_failures p \<Longrightarrow> no_failures (fst (run_records caps cfg cb cancelled xs p))"
proof (induction xs arbitrary: p)
  case Nil
  then show ?case
    by (auto split: option.splits dest: no_failures_flushRemaining)
next
  case (Cons x xs)
  show ?case
  proof (cases "cancelled (scanned (report p))")
    case True
    with Cons.prems show ?thesis
      by (auto split: option.splits dest!: no_failures_flushRemaining simp: no_failures_def)
  next
    case False
    show ?thesis
    proof (cases x)
      case IOError
      with False Cons.prems show ?thesis by simp
    next
      case (Record k v)
      have b1: "no_failures (visit cfg cb k v p)"
        by (rule no_failures_visit) (use nf Cons.prems in auto)
      show ?thesis
      proof (cases "flushIfFull caps cfg (visit cfg cb k v p)")
        case None
        with False Record b1 show ?thesis
          by (simp add: Let_def)
      next
        case (Some p2)
        from no_failures_flushIfFull[OF Some b1] have "no_failures p2" .
        from Cons.IH[OF this] False Record Some show ?thesis
          by (simp add: Let_def)
      qed
    qed
  qed
qed

lemma filter_by_age_return:
  "(\<exists>b. filter_by_age_should_process L key val = Inr b) \<and>
   (\<exists>s. filter_by_age_transform_value L key val = Inr s)"
  by (simp add: filter_by_age_should_process_def filter_by_age_transform_value_def
      try_except_never_raises)

text \<open>
  C3. The callbacks of filter\_by\_age.py never raise: for every key and value
  \<^verbatim>\<open>should_process\<close> returns a boolean and \<^verbatim>\<open>transform_value\<close> returns a string,
  whatever \<^verbatim>\<open>json.loads\<close> and \<^verbatim>\<open>json.dumps\<close> do. So a job that runs them takes no
  Failed decision: its report has \<open>failed = 0\<close> and no recorded failure.
\<close>

theorem filter_by_age_never_raises:
  fixes s :: 'st
  shows "(\<exists>b. filter_by_age_should_process L key val = Inr b) \<and>
   (\<exists>s. filter_by_age_transform_value L key val = Inr s) \<and>
   failed (report (fst (run_job caps cfg (filter_by_age_callbacks L) cancelled s))) = 0 \<and>
   failures (report (fst (run_job caps cfg (filter_by_age_callbacks L) cancelled s))) = []"
proof -
  have "\<And>k v e. decide (filter_by_age_callbacks L) k v \<noteq> Fail e"
    using decide_never_fails[of "filter_by_age_callbacks L"] filter_by_age_return[of L]
    by (simp add: accepts_def filter_by_age_callbacks_def)
  note run = no_failures_run_records[OF this]
  have init: "no_failures (new_pipeline s :: ('st, exn) pipeline)"
    by (simp add: no_failures_def new_pipeline_def new_report_def)
  have "no_failures (fst (run_job caps cfg (filter_by_age_callbacks L) cancelled s))"
  proof (cases "openSnapshotScan caps s (columnFamily cfg) (keyRangeOrPrefix cfg)")
    case None
    with init show ?thesis
      by (simp add: run_job_def)
  next
    case (Some steps)
    with run[OF init, of caps cfg cancelled steps] show ?thesis
      by (simp add: run_job_def)
  qed
  with filter_by_age_return[of L key val] show ?thesis
    by (simp add: no_failures_def)
qed

end
